theory Spec2Isabelle
  imports Main "HOL-Library.Word"
begin

section \<open>Strings of the host language\<close>

text \<open>
  A JavaScript string is a sequence of UTF-16 code units. \<open>String.prototype.split('')\<close>,
  \<open>Array.prototype.splice\<close> offsets and the regular expressions of the sources (none has
  the \<open>u\<close> flag) all work on code units, so a string is a list of 16-bit words.
  \<open>js\<close> turns an ASCII literal into such a string.
\<close>

type_synonym jschar = "16 word"
type_synonym jsstring = "jschar list"

definition js :: "string \<Rightarrow> jsstring" where
  "js s = map of_char s"

abbreviation TAB_CHAR :: jschar where "TAB_CHAR \<equiv> 9"
abbreviation LF :: jschar where "LF \<equiv> 10"
abbreviation CR :: jschar where "CR \<equiv> 13"
abbreviation DQUOTE :: jschar where "DQUOTE \<equiv> 34"
abbreviation COMMA :: jschar where "COMMA \<equiv> 44"
abbreviation BACKSLASH :: jschar where "BACKSLASH \<equiv> 92"
abbreviation LETTER_n :: jschar where "LETTER_n \<equiv> 110"
abbreviation LETTER_r :: jschar where "LETTER_r \<equiv> 114"
abbreviation LETTER_t :: jschar where "LETTER_t \<equiv> 116"
abbreviation LINE_SEPARATOR :: jschar where "LINE_SEPARATOR \<equiv> 8232"
abbreviation PARAGRAPH_SEPARATOR :: jschar where "PARAGRAPH_SEPARATOR \<equiv> 8233"

text \<open>
  \<open>s.replace(/pat/g, rep)\<close> for a pattern that is a literal, non-empty sequence of code
  units and a replacement without \<open>$\<close>: the scan goes from left to right, a match is
  replaced and the scan resumes after it, a code unit that starts no match is copied.
\<close>

function replaceAll :: "jsstring \<Rightarrow> jsstring \<Rightarrow> jsstring \<Rightarrow> jsstring" where
  "replaceAll pat rep [] = []"
| "replaceAll pat rep (c # cs) =
     (if pat \<noteq> [] \<and> take (length pat) (c # cs) = pat
      then rep @ replaceAll pat rep (drop (length pat - 1) cs)
      else c # replaceAll pat rep cs)"
  by pat_completeness auto
termination
  by (relation "measure (\<lambda>(pat, rep, s). length s)") auto

section \<open>Row codec: escaping (utilities.ts)\<close>

text \<open>
  \<open>escapeString\<close>: five global replacements, in the order of the source. The argument may
  be \<open>undefined\<close> (\<open>None\<close>), which gives the empty string.
\<close>

definition escapeString :: "jsstring option \<Rightarrow> jsstring" where
  "escapeString editorText =
     (case editorText of
        None \<Rightarrow> []
      | Some s \<Rightarrow>
          replaceAll [TAB_CHAR] [BACKSLASH, LETTER_t]
            (replaceAll [CR] [BACKSLASH, LETTER_r]
              (replaceAll [LF] [BACKSLASH, LETTER_n]
                (replaceAll [CR, LF] [BACKSLASH, LETTER_r, BACKSLASH, LETTER_n]
                  (replaceAll [DQUOTE] [DQUOTE, DQUOTE] s)))))"

text \<open>
  \<open>removeDoubleQuotes\<close>: \<open>text.replace(/^"(.*)"$/, '$1')\<close>. Without flags \<open>^\<close> and
  \<open>$\<close> are the two ends of the input and \<open>.\<close> is any code unit but a line terminator
  (LF, CR, U+2028, U+2029). The expression matches exactly when the text has at least two
  code units, starts and ends with a double quote and has no line terminator in between;
  the match is the whole text and it is replaced by what is in between.
\<close>

definition isLineTerminator :: "jschar \<Rightarrow> bool" where
  "isLineTerminator c =
     (c = LF \<or> c = CR \<or> c = LINE_SEPARATOR \<or> c = PARAGRAPH_SEPARATOR)"

definition removeDoubleQuotes :: "jsstring \<Rightarrow> jsstring" where
  "removeDoubleQuotes text =
     (if 2 \<le> length text \<and> hd text = DQUOTE \<and> last text = DQUOTE
         \<and> \<not> list_ex isLineTerminator (butlast (tl text))
      then butlast (tl text)
      else text)"

text \<open>\<open>unescapeString\<close>: five global replacements, in the order of the source.\<close>

definition unescapeString :: "jsstring \<Rightarrow> jsstring" where
  "unescapeString text =
     replaceAll [BACKSLASH, LETTER_t] [TAB_CHAR]
       (replaceAll [BACKSLASH, LETTER_r] [CR]
         (replaceAll [BACKSLASH, LETTER_n] [LF]
           (replaceAll [BACKSLASH, LETTER_r, BACKSLASH, LETTER_n] [CR, LF]
             (replaceAll [DQUOTE, DQUOTE] [DQUOTE] text))))"

text \<open>
  The text field of a row as \<open>buildCsvRow\<close> writes it (the escaped text between two double
  quotes) and as \<open>processCSVLine\<close> reads it back.
\<close>

definition encodeText :: "jsstring \<Rightarrow> jsstring" where
  "encodeText s = [DQUOTE] @ escapeString (Some s) @ [DQUOTE]"

definition decodeText :: "jsstring \<Rightarrow> jsstring" where
  "decodeText field = unescapeString (removeDoubleQuotes field)"

section \<open>Texts that the escaping restores\<close>

text \<open>
  A text has no escape sequence when none of its backslashes is followed by one of the
  letters \<open>n\<close>, \<open>r\<close>, \<open>t\<close>. \<open>escapeUnit\<close> is what \<open>escapeString\<close> writes for a code
  unit that is not a double quote; the three functions after it describe an escaped text
  after the second, the third and the fourth replacement of \<open>unescapeString\<close>.
\<close>

fun noEscapeSequence :: "jsstring \<Rightarrow> bool" where
  "noEscapeSequence (a # b # cs) =
     (\<not> (a = BACKSLASH \<and> (b = LETTER_n \<or> b = LETTER_r \<or> b = LETTER_t))
      \<and> noEscapeSequence (b # cs))"
| "noEscapeSequence _ = True"

definition escapeUnit :: "jschar \<Rightarrow> jsstring" where
  "escapeUnit c =
     (if c = CR then [BACKSLASH, LETTER_r]
      else if c = LF then [BACKSLASH, LETTER_n]
      else if c = TAB_CHAR then [BACKSLASH, LETTER_t]
      else [c])"

fun restoredCRLF :: "jsstring \<Rightarrow> jsstring" where
  "restoredCRLF [] = []"
| "restoredCRLF [c] = escapeUnit c"
| "restoredCRLF (c # d # s) =
     (if c = CR \<and> d = LF then CR # LF # restoredCRLF s
      else escapeUnit c @ restoredCRLF (d # s))"

fun restoredLF :: "jsstring \<Rightarrow> jsstring" where
  "restoredLF [] = []"
| "restoredLF [c] = (if c = LF then [LF] else escapeUnit c)"
| "restoredLF (c # d # s) =
     (if c = CR \<and> d = LF then CR # LF # restoredLF s
      else (if c = LF then [LF] else escapeUnit c) @ restoredLF (d # s))"

definition restoredCR :: "jsstring \<Rightarrow> jsstring" where
  "restoredCR s = concat (map (\<lambda>c. if c = TAB_CHAR then [BACKSLASH, LETTER_t] else [c]) s)"

section \<open>Numbers and \<open>Number.parseInt\<close>\<close>

text \<open>
  The numbers of the replay come from \<open>Number.parseInt\<close>: an integer or \<open>NaN\<close>. Integers
  are exact here and \<open>-0\<close> is \<open>0\<close>. A number of JavaScript is a double: it holds every
  integer up to \<open>Number.MAX_SAFE_INTEGER\<close>, which is \<open>2^53 - 1\<close>, and rounds beyond, so
  the arithmetic of the model is that of the source for integers within this bound only.
\<close>

datatype number = NaN | Number int

definition MAX_SAFE_INTEGER :: nat where
  "MAX_SAFE_INTEGER = 9007199254740991"

definition isStrWhiteSpaceChar :: "jschar \<Rightarrow> bool" where
  "isStrWhiteSpaceChar c =
     (c = 9 \<or> c = 10 \<or> c = 11 \<or> c = 12 \<or> c = 13 \<or> c = 32 \<or> c = 160 \<or> c = 5760
      \<or> (8192 \<le> c \<and> c \<le> 8202) \<or> c = 8232 \<or> c = 8233 \<or> c = 8239 \<or> c = 8287
      \<or> c = 12288 \<or> c = 65279)"

definition digitValue :: "jschar \<Rightarrow> nat option" where
  "digitValue c =
     (if 48 \<le> c \<and> c \<le> 57 then Some (unat c - 48)
      else if 97 \<le> c \<and> c \<le> 122 then Some (unat c - 87)
      else if 65 \<le> c \<and> c \<le> 90 then Some (unat c - 55)
      else None)"

definition isRadixDigit :: "nat \<Rightarrow> jschar \<Rightarrow> bool" where
  "isRadixDigit radix c = (case digitValue c of None \<Rightarrow> False | Some d \<Rightarrow> d < radix)"

definition digitsValue :: "nat \<Rightarrow> jsstring \<Rightarrow> int" where
  "digitsValue radix ds =
     foldl (\<lambda>acc c. acc * int radix + int (case digitValue c of None \<Rightarrow> 0 | Some d \<Rightarrow> d)) 0 ds"

text \<open>
  \<open>Number.parseInt(string)\<close> with no radix: leading white space is skipped, a sign is
  read, \<open>0x\<close> or \<open>0X\<close> selects radix 16, the longest prefix of digits is the value, and
  there is \<open>NaN\<close> when that prefix is empty. \<open>undefined\<close> is read as the text
  \<open>undefined\<close>, which has no digit.
\<close>

definition parseInt :: "jsstring option \<Rightarrow> number" where
  "parseInt string =
     (case string of
        None \<Rightarrow> NaN
      | Some inputString \<Rightarrow>
          (let s = dropWhile isStrWhiteSpaceChar inputString;
               negative = (s \<noteq> [] \<and> hd s = 45);
               s1 = (if s \<noteq> [] \<and> (hd s = 43 \<or> hd s = 45) then tl s else s);
               hex = (2 \<le> length s1 \<and> hd s1 = 48 \<and> (s1 ! 1 = 120 \<or> s1 ! 1 = 88));
               radix = (if hex then 16 else 10);
               s2 = (if hex then drop 2 s1 else s1);
               ds = takeWhile (isRadixDigit radix) s2
           in if ds = [] then NaN
              else Number ((if negative then - 1 else 1) * digitsValue radix ds)))"

text \<open>Strict equality \<open>===\<close> of two numbers: \<open>NaN\<close> equals nothing.\<close>

fun strictEquals :: "number \<Rightarrow> number \<Rightarrow> bool" where
  "strictEquals (Number a) (Number b) = (a = b)"
| "strictEquals _ _ = False"

text \<open>\<open>ToIntegerOrInfinity\<close>, applied by \<open>splice\<close> to its first two arguments.\<close>

fun toIntegerOrInfinity :: "number \<Rightarrow> int" where
  "toIntegerOrInfinity NaN = 0"
| "toIntegerOrInfinity (Number i) = i"

section \<open>Row codec: decoding a line\<close>

text \<open>
  \<open>line.split(/,(?=(?:[^"]*"[^"]*")*[^"]*$)/)\<close>: the separator is a comma after which
  the rest of the line holds an even number of double quotes. The split of the empty
  string is the one empty field.
\<close>

fun splitLine :: "jsstring \<Rightarrow> jsstring list" where
  "splitLine [] = [[]]"
| "splitLine (c # cs) =
     (if c = COMMA \<and> even (count_list cs DQUOTE) then [] # splitLine cs
      else (case splitLine cs of [] \<Rightarrow> [[c]] | f # fs \<Rightarrow> (c # f) # fs))"

text \<open>\<open>lineArr[k]\<close>: \<open>undefined\<close> beyond the last field.\<close>

definition at :: "'a list \<Rightarrow> nat \<Rightarrow> 'a option" where
  "at xs k = (if k < length xs then Some (xs ! k) else None)"

section \<open>Replay reconstructor\<close>

text \<open>
  The sources hold two copies of \<open>recording.ts\<close>. The replay modelled here is that of
  the later one, which has \<open>processCSVLine\<close>, \<open>getNewTextContent\<close>, \<open>getUpdatedText\<close>,
  \<open>validateRecordingState\<close> and \<open>finalizeRecording\<close> and takes the name of the log from
  \<open>generateFileName(recording.startDateTime)\<close>. The earlier copy has the same splice and
  the same early returns inside one function \<open>processCsvFile\<close>, without the step that
  drops a duplicate row and with the sequence numbers of the log.
\<close>

text \<open>The session state \<open>recording\<close>; a \<open>Date\<close> is its time in milliseconds.\<close>

record Recording =
  isRecording :: bool
  timer :: nat
  startDateTime :: "int option"
  endDateTime :: "int option"
  sequence :: nat

record Change =
  sequence :: nat
  file' :: jsstring
  startTime :: number
  endTime :: number
  language :: "jsstring option"
  text' :: jsstring

datatype error = TypeError | ReadError

text \<open>
  \<open>Array.prototype.splice(start, deleteCount, item)\<close> on the code units of the previous
  text, then \<open>join('')\<close>: a negative start counts from the end, a start beyond the end
  is the end, and the delete count is cut to what is left after the start.
\<close>

definition getUpdatedText :: "jsstring \<Rightarrow> number \<Rightarrow> number \<Rightarrow> jsstring \<Rightarrow> jsstring" where
  "getUpdatedText previousText rangeOffset rangeLength newText =
     (let len = int (length previousText);
          relativeStart = toIntegerOrInfinity rangeOffset;
          actualStart = (if relativeStart < 0 then max (len + relativeStart) 0
                         else min relativeStart len);
          actualDeleteCount = min (max (toIntegerOrInfinity rangeLength) 0) (len - actualStart)
      in take (nat actualStart) previousText @ newText
         @ drop (nat (actualStart + actualDeleteCount)) previousText)"

text \<open>
  \<open>ChangeType.TAB\<close> is declared in \<open>types.ts\<close>, which is not among the sources: the
  functions that compare with it take its value as the parameter \<open>TAB\<close>.
\<close>

definition getNewTextContent ::
  "jsstring \<Rightarrow> jsstring option \<Rightarrow> jsstring \<Rightarrow> Change option \<Rightarrow> number \<Rightarrow> number \<Rightarrow> jsstring" where
  "getNewTextContent TAB type txt previousChange rangeOffset rangeLength =
     (if type = Some TAB then txt
      else (case previousChange of
              None \<Rightarrow> []
            | Some p \<Rightarrow> getUpdatedText (text' p) rangeOffset rangeLength txt))"

text \<open>
  \<open>processCSVLine\<close>: \<open>Inr None\<close> is the \<open>null\<close> of a skipped line, \<open>Inl TypeError\<close>
  the exception of \<open>removeDoubleQuotes\<close> called on a field that is missing.
\<close>

definition processCSVLine :: "jsstring \<Rightarrow> jsstring \<Rightarrow> Change option \<Rightarrow> error + Change option" where
  "processCSVLine TAB line previousChange =
     (let lineArr = splitLine line in
      if parseInt (at lineArr 0) = NaN then Inr None
      else
        (let time = parseInt (at lineArr 1) in
         case at lineArr 2 of
           None \<Rightarrow> Inl TypeError
         | Some f \<Rightarrow>
             (let file = removeDoubleQuotes f;
                  rangeOffset = parseInt (at lineArr 3);
                  rangeLength = parseInt (at lineArr 4)
              in case at lineArr 5 of
                   None \<Rightarrow> Inl TypeError
                 | Some t \<Rightarrow>
                     (let txt = unescapeString (removeDoubleQuotes t);
                          language = at lineArr 6;
                          type = at lineArr 7;
                          newText = getNewTextContent TAB type txt previousChange
                                      rangeOffset rangeLength
                      in if (case previousChange of
                               None \<Rightarrow> False
                             | Some p \<Rightarrow> strictEquals time (startTime p) \<and> file = file' p
                                         \<and> newText = text' p \<and> language = Change.language p)
                         then Inr None
                         else Inr (Some \<lparr>sequence = (case previousChange of
                                                        None \<Rightarrow> 1 | Some p \<Rightarrow> sequence p + 1),
                                          file' = file, startTime = time, endTime = Number 0,
                                          language = language, text' = newText\<rparr>)))))"

section \<open>Export formatters\<close>

text \<open>\<open>Number.prototype.toString\<close> for an integer.\<close>

definition digitChar :: "nat \<Rightarrow> jschar" where
  "digitChar d = of_nat (48 + d)"

function natToString :: "nat \<Rightarrow> jsstring" where
  "natToString n =
     (if n < 10 then [digitChar n] else natToString (n div 10) @ [digitChar (n mod 10)])"
  by pat_completeness auto
termination
  by (relation "measure id") auto

definition intToString :: "int \<Rightarrow> jsstring" where
  "intToString i = (if i < 0 then 45 # natToString (nat (- i)) else natToString (nat i))"

text \<open>\<open>s.padStart(targetLength, '0')\<close>.\<close>

definition padStart :: "nat \<Rightarrow> jsstring \<Rightarrow> jsstring" where
  "padStart targetLength s = replicate (targetLength - length s) 48 @ s"

text \<open>
  The remainder \<open>a % b\<close> for a positive \<open>b\<close> has the sign of \<open>a\<close>; \<open>Math.floor(a / b)\<close>
  is the floored quotient \<open>a div b\<close>.
\<close>

definition jsRem :: "int \<Rightarrow> int \<Rightarrow> int" where
  "jsRem a b = (if a < 0 then - ((- a) mod b) else a mod b)"

text \<open>
  \<open>formatSrtTime\<close>, on integers. For a count of milliseconds up to \<open>MAX_SAFE_INTEGER\<close>
  each quotient of the source, rounded to a double and floored, is the floored quotient,
  and each remainder is exact, so the function is the source there; for a larger count
  the doubles round (and print with an exponent from \<open>1e21\<close>) and it is not.
\<close>

fun formatSrtTime :: "number \<Rightarrow> jsstring" where
  "formatSrtTime NaN = js ''NaN:NaN:NaN,NaN''"
| "formatSrtTime (Number milliseconds) =
     (let seconds = milliseconds div 1000;
          hours = seconds div 3600;
          minutes = jsRem seconds 3600 div 60;
          remainingSeconds = jsRem seconds 60;
          remainingMilliseconds = jsRem milliseconds 1000
      in padStart 2 (intToString hours) @ js '':'' @ padStart 2 (intToString minutes) @ js '':''
         @ padStart 2 (intToString remainingSeconds) @ js '',''
         @ padStart 3 (intToString remainingMilliseconds))"

definition addSrtLine :: "nat \<Rightarrow> number \<Rightarrow> number \<Rightarrow> jsstring \<Rightarrow> jsstring" where
  "addSrtLine seq start end' txt =
     natToString seq @ [LF] @ formatSrtTime start @ js '' --> '' @ formatSrtTime end'
     @ [LF] @ txt @ [LF, LF]"

section \<open>Row codec: encoding a row\<close>

text \<open>
  \<open>buildCsvRow\<close>. The clock (\<open>now\<close>) and the editor's file name and language are read
  from the host and are parameters here; \<open>type\<close> is the text of the change type.
\<close>

definition buildCsvRow ::
  "Recording \<Rightarrow> int \<Rightarrow> jsstring \<Rightarrow> jsstring \<Rightarrow> int \<Rightarrow> int \<Rightarrow> int \<Rightarrow> jsstring option \<Rightarrow> jsstring
   \<Rightarrow> jsstring option" where
  "buildCsvRow recording now editorFileName editorLanguage seq rangeOffset rangeLength txt type =
     (case startDateTime recording of
        None \<Rightarrow> None
      | Some start \<Rightarrow>
          if type = js ''heading''
          then Some (js ''Sequence,Time,File,RangeOffset,RangeLength,Text,Language,Type'' @ [LF])
          else Some (intToString seq @ [COMMA] @ intToString (now - start) @ [COMMA, DQUOTE]
                     @ editorFileName @ [DQUOTE, COMMA] @ intToString rangeOffset @ [COMMA]
                     @ intToString rangeLength @ [COMMA, DQUOTE] @ escapeString txt
                     @ [DQUOTE, COMMA] @ editorLanguage @ [COMMA] @ type @ [LF]))"

section \<open>Append log writer\<close>

record File =
  name :: jsstring
  content :: jsstring

text \<open>
  What the sources take from outside: the value of \<open>ChangeType.TAB\<close> (\<open>types.ts\<close>),
  \<open>generateFileName(date, isExport)\<close> (of which \<open>utilities.ts\<close> has an earlier form
  without arguments; it may give \<open>undefined\<close>), and the two uses of \<open>JSON.stringify\<close>.
\<close>

record Host =
  ChangeType_TAB :: jsstring
  generateFileName :: "int \<Rightarrow> bool \<Rightarrow> jsstring option"
  stringifyEntry :: "jsstring \<Rightarrow> jsstring \<Rightarrow> jsstring option \<Rightarrow> jsstring"
  stringifyChanges :: "Change list \<Rightarrow> jsstring"

text \<open>
  \<open>addToFileQueue\<close>: the queue is the state, returned updated. \<open>!content\<close> holds for
  \<open>undefined\<close> and for the empty string, and so does \<open>!fileName\<close>.
\<close>

definition addToFileQueue ::
  "Host \<Rightarrow> Recording \<Rightarrow> jsstring option \<Rightarrow> jsstring \<Rightarrow> bool \<Rightarrow> File list \<Rightarrow> File list" where
  "addToFileQueue host recording cont fileExtension isExport fileQueue =
     (case cont of
        None \<Rightarrow> fileQueue
      | Some c \<Rightarrow>
          if c = [] then fileQueue
          else (case startDateTime recording of
                  None \<Rightarrow> fileQueue
                | Some start \<Rightarrow>
                    (case generateFileName host start isExport of
                       None \<Rightarrow> fileQueue
                     | Some fileName \<Rightarrow>
                         if fileName = [] then fileQueue
                         else fileQueue @ [\<lparr>name = fileName @ js ''.'' @ fileExtension,
                                             content = c\<rparr>])))"

text \<open>
  The earlier copy of \<open>recording.ts\<close> has \<open>addToFileQueue\<close> with the first guard only,
  and names the file after \<open>recording.fileName\<close>, a parameter here.
\<close>

definition addToFileQueue_earlier ::
  "jsstring \<Rightarrow> jsstring option \<Rightarrow> jsstring \<Rightarrow> File list \<Rightarrow> File list" where
  "addToFileQueue_earlier recordingFileName cont fileExtension fileQueue =
     (case cont of
        None \<Rightarrow> fileQueue
      | Some c \<Rightarrow>
          if c = [] then fileQueue
          else fileQueue @ [\<lparr>name = recordingFileName @ js ''.'' @ fileExtension,
                              content = c\<rparr>])"

text \<open>
  \<open>addToSRTFile\<close>: reading \<open>processedChanges[i - 1]\<close> beyond the array gives
  \<open>undefined\<close>, and the access to its field raises.
\<close>

definition addToSRTFile ::
  "Host \<Rightarrow> Recording \<Rightarrow> Change list \<Rightarrow> nat \<Rightarrow> bool \<Rightarrow> File list \<Rightarrow> error + File list" where
  "addToSRTFile host recording processedChanges i exportInSrt fileQueue =
     (if \<not> exportInSrt then Inr fileQueue
      else if i = 0 then Inr fileQueue
      else (case at processedChanges (i - 1) of
              None \<Rightarrow> Inl TypeError
            | Some c \<Rightarrow>
                Inr (addToFileQueue host recording
                       (Some (addSrtLine (sequence c) (startTime c) (endTime c)
                                (stringifyEntry host (text' c) (file' c) (language c))))
                       (js ''srt'') True fileQueue)))"

section \<open>The replay loop\<close>

text \<open>
  One turn of the loop \<open>for await (const line of rl)\<close> of \<open>processCsvFile\<close>, on the array
  \<open>processedChanges\<close> and the queue. \<open>previousChange\<close> is the last element of the array
  (\<open>undefined\<close> when it is empty); it is the object held by the array, so the assignment
  to its \<open>endTime\<close> updates the last element.
\<close>

definition replayLine ::
  "Host \<Rightarrow> Recording \<Rightarrow> jsstring list \<Rightarrow> jsstring \<Rightarrow> Change list \<times> File list
   \<Rightarrow> error + Change list \<times> File list" where
  "replayLine host recording exportFormats line st =
     (let processedChanges = fst st; fileQueue = snd st;
          previousChange = (if processedChanges = [] then None else Some (last processedChanges))
      in case processCSVLine (ChangeType_TAB host) line previousChange of
           Inl e \<Rightarrow> Inl e
         | Inr None \<Rightarrow> Inr (processedChanges, fileQueue)
         | Inr (Some change) \<Rightarrow>
             (case previousChange of
                None \<Rightarrow> Inr (processedChanges @ [change], fileQueue)
              | Some p \<Rightarrow>
                  (let closed = butlast processedChanges @ [p\<lparr>endTime := startTime change\<rparr>]
                   in if js ''SRT'' \<in> set exportFormats
                      then (case addToSRTFile host recording closed (length closed) True fileQueue of
                              Inl e \<Rightarrow> Inl e
                            | Inr q \<Rightarrow> Inr (closed @ [change], q))
                      else Inr (closed @ [change], fileQueue))))"

text \<open>
  The whole loop. An exception ends it: the result then holds the exception and the array
  and the queue as they were when it was raised.
\<close>

fun replayLines ::
  "Host \<Rightarrow> Recording \<Rightarrow> jsstring list \<Rightarrow> jsstring list \<Rightarrow> Change list \<times> File list
   \<Rightarrow> error option \<times> Change list \<times> File list" where
  "replayLines host recording exportFormats [] st = (None, st)"
| "replayLines host recording exportFormats (line # rest) st =
     (case replayLine host recording exportFormats line st of
        Inl e \<Rightarrow> (Some e, st)
      | Inr st' \<Rightarrow> replayLines host recording exportFormats rest st')"

text \<open>\<open>finalizeRecording\<close>, up to its call of \<open>appendToFile\<close>.\<close>

definition finalizeRecording ::
  "Host \<Rightarrow> Recording \<Rightarrow> jsstring list \<Rightarrow> Change list \<times> File list
   \<Rightarrow> error + Change list \<times> File list" where
  "finalizeRecording host recording exportFormats st =
     (let processedChanges = fst st; fileQueue = snd st;
          closed =
            (if processedChanges = [] then Inr st
             else (case (endDateTime recording, startDateTime recording) of
                     (Some e, Some s) \<Rightarrow>
                       (let cs = butlast processedChanges
                                 @ [(last processedChanges)\<lparr>endTime := Number (e - s)\<rparr>]
                        in if js ''SRT'' \<in> set exportFormats
                           then (case addToSRTFile host recording cs (length cs) True fileQueue of
                                   Inl err \<Rightarrow> Inl err
                                 | Inr q \<Rightarrow> Inr (cs, q))
                           else Inr (cs, fileQueue))
                   | _ \<Rightarrow> Inr st))
      in case closed of
           Inl err \<Rightarrow> Inl err
         | Inr (cs, q) \<Rightarrow>
             if js ''JSON'' \<in> set exportFormats
             then Inr (cs, addToFileQueue host recording (Some (stringifyChanges host cs))
                             (js ''json'') True q)
             else Inr (cs, q))"

text \<open>
  What a run of \<open>processCsvFile\<close> did: the lines given to \<open>logToOutput\<close> with their type,
  the warnings shown, whether the row log was opened, the exception that ended the run
  if any, the array \<open>processedChanges\<close>, the queue, and whether \<open>appendToFile\<close> was called
  at the end.
\<close>

datatype LogType = Info | Success | Error

record Replay =
  logged :: "(LogType \<times> string) list"
  warned :: "string list"
  opened :: bool
  raised :: "error option"
  changes :: "Change list"
  queue :: "File list"
  flushed :: bool

definition returned :: "(LogType \<times> string) list \<Rightarrow> string list \<Rightarrow> File list \<Rightarrow> Replay" where
  "returned ls ws q =
     \<lparr>logged = ls, warned = ws, opened = False, raised = None, changes = [],
      queue = q, flushed = False\<rparr>"

text \<open>
  \<open>processCsvFile\<close>. \<open>workspaceFolders\<close> tells whether the workspace has folders,
  \<open>exportFormats\<close> is the setting \<open>export.exportFormats\<close>, \<open>exportPath\<close> the result of
  \<open>getExportPath()\<close>, \<open>rowLog\<close> the lines of the row log (\<open>None\<close> when the file cannot be
  read) and \<open>fileQueue\<close> the queue at the call.
\<close>

definition processCsvFile ::
  "Host \<Rightarrow> bool \<Rightarrow> Recording \<Rightarrow> jsstring list \<Rightarrow> jsstring option \<Rightarrow> jsstring list option
   \<Rightarrow> File list \<Rightarrow> Replay" where
  "processCsvFile host workspaceFolders recording exportFormats exportPath rowLog fileQueue =
     (if \<not> workspaceFolders
      then returned [(Error, ''No workspace folder found. To process the recording is needed a workspace folder'')]
             [] fileQueue
      else if endDateTime recording = None \<or> startDateTime recording = None
      then returned [(Error, ''Recording date time is not properly set'')] [] fileQueue
      else if length exportFormats = 0
      then returned [(Info, ''No export formats specified'')] [''No export formats specified'']
             fileQueue
      else if exportPath = None \<or> exportPath = Some [] then returned [] [] fileQueue
      else (case startDateTime recording of
              None \<Rightarrow> returned [] [] fileQueue
            | Some start \<Rightarrow>
                (case generateFileName host start False of
                   None \<Rightarrow> returned [] [] fileQueue
                 | Some sourceFileName \<Rightarrow>
                     if sourceFileName = [] then returned [] [] fileQueue
                     else (case rowLog of
                             None \<Rightarrow> (returned [] [] fileQueue)\<lparr>opened := True, raised := Some ReadError\<rparr>
                           | Some lines \<Rightarrow>
                               (case replayLines host recording exportFormats lines ([], fileQueue) of
                                  (Some e, st) \<Rightarrow>
                                    \<lparr>logged = [], warned = [], opened = True, raised = Some e,
                                     changes = fst st, queue = snd st, flushed = False\<rparr>
                                | (None, st) \<Rightarrow>
                                    (case finalizeRecording host recording exportFormats st of
                                       Inl e \<Rightarrow>
                                         \<lparr>logged = [], warned = [], opened = True, raised = Some e,
                                          changes = fst st, queue = snd st,
                                          flushed = False\<rparr>
                                     | Inr (cs, q) \<Rightarrow>
                                         \<lparr>logged = [], warned = [], opened = True, raised = None,
                                          changes = cs, queue = q,
                                          flushed = True\<rparr>))))))"

section \<open>Draining the queue\<close>

text \<open>
  \<open>appendToFile\<close> and \<open>addToFile\<close> are asynchronous, and no caller awaits
  \<open>appendToFile\<close>. A call of \<open>appendToFile\<close> runs up to its first \<open>await\<close>: with a queue
  that is not empty it calls \<open>addToFile\<close> for the head of the queue, which starts
  \<open>fs.appendFile\<close> and suspends; the task stays in the queue and control goes back to the
  caller. When that write ends, \<open>addToFile\<close> resumes: after a success (the text is then
  at the end of the file) it calls \<open>fileQueue.shift()\<close>, which removes whatever is the
  head of the queue at that moment; after a failure it only reports the error. Then the
  loop of \<open>appendToFile\<close> resumes and, while the queue is not empty, starts the write of
  its head.

  The state is the queue, the files (by name under the export path) and the writes in
  flight, one for each call of \<open>appendToFile\<close> that has not returned. The steps are the
  calls of the two functions and the ends of the writes (\<open>WriteEnds k ok\<close>: the write
  number \<open>k\<close> of those in flight ends, with success or not); the export path is taken to
  be there (without it \<open>appendToFile\<close> ends the session and writes nothing).
\<close>

record Writer =
  pending :: "File list"
  files :: "jsstring \<Rightarrow> jsstring"
  inFlight :: "File list"

datatype event =
    Enqueue File
  | AppendToFile
  | WriteEnds nat bool

definition startWrite :: "Writer \<Rightarrow> Writer" where
  "startWrite w =
     (case pending w of [] \<Rightarrow> w | task # _ \<Rightarrow> w\<lparr>inFlight := inFlight w @ [task]\<rparr>)"

definition writeEnds :: "nat \<Rightarrow> bool \<Rightarrow> Writer \<Rightarrow> Writer" where
  "writeEnds k ok w =
     (if k < length (inFlight w)
      then (let task = inFlight w ! k;
                w1 = (if ok
                      then w\<lparr>files := (files w)(name task := files w (name task) @ content task),
                             pending := tl (pending w)\<rparr>
                      else w)
            in case pending w1 of
                 [] \<Rightarrow> w1\<lparr>inFlight := take k (inFlight w1) @ drop (Suc k) (inFlight w1)\<rparr>
               | next # _ \<Rightarrow> w1\<lparr>inFlight := (inFlight w1)[k := next]\<rparr>)
      else w)"

fun step :: "Writer \<Rightarrow> event \<Rightarrow> Writer" where
  "step w (Enqueue task) = w\<lparr>pending := pending w @ [task]\<rparr>"
| "step w AppendToFile = startWrite w"
| "step w (WriteEnds k ok) = writeEnds k ok w"

definition run :: "Writer \<Rightarrow> event list \<Rightarrow> Writer" where
  "run w evs = foldl step w evs"

text \<open>
  A call of \<open>appendToFile\<close> that is left alone until it returns or the list of the outcomes
  of its writes is used up: no other call is made in between.
\<close>

definition drain :: "bool list \<Rightarrow> Writer \<Rightarrow> Writer" where
  "drain outcomes w = run w (AppendToFile # map (WriteEnds (length (inFlight w))) outcomes)"

section \<open>Rows of a log and their times\<close>

text \<open>
  A line is a row when its first field parses as an integer (the others are skipped, as
  the heading is); the time of a row is its second field. \<open>lessEq\<close> is the comparison
  \<open><=\<close> of JavaScript, false when one side is \<open>NaN\<close>.
\<close>

definition isRow :: "jsstring \<Rightarrow> bool" where
  "isRow line = (parseInt (at (splitLine line) 0) \<noteq> NaN)"

definition rowTime :: "jsstring \<Rightarrow> number" where
  "rowTime line = parseInt (at (splitLine line) 1)"

fun lessEq :: "number \<Rightarrow> number \<Rightarrow> bool" where
  "lessEq (Number a) (Number b) = (a \<le> b)"
| "lessEq _ _ = False"

section \<open>A sample session\<close>

text \<open>
  A host, a session that lasted 5000 ms, and the lines that \<open>readline\<close> gives back for
  the rows that \<open>buildCsvRow\<close> writes in that session (a row without its final line
  feed), for the file \<open>a.ts\<close> in the language \<open>typescript\<close>.
\<close>

definition sampleHost :: Host where
  "sampleHost =
     \<lparr>ChangeType_TAB = js ''tab'',
      generateFileName = (\<lambda>date isExport. Some (js ''vs-code-recorder'')),
      stringifyEntry = (\<lambda>txt file language. txt),
      stringifyChanges = (\<lambda>cs. js ''[]'')\<rparr>"

definition sampleRecording :: Recording where
  "sampleRecording =
     \<lparr>isRecording = False, timer = 0, startDateTime = Some 1000, endDateTime = Some 6000,
      sequence = 0\<rparr>"

definition sampleLine :: "int \<Rightarrow> int \<Rightarrow> int \<Rightarrow> int \<Rightarrow> jsstring \<Rightarrow> jsstring \<Rightarrow> jsstring" where
  "sampleLine seq elapsed rangeOffset rangeLength txt type =
     (case buildCsvRow sampleRecording (1000 + elapsed) (js ''a.ts'') (js ''typescript'') seq
             rangeOffset rangeLength (Some txt) type of
        None \<Rightarrow> []
      | Some row \<Rightarrow> butlast row)"

definition emptyWriter :: Writer where
  "emptyWriter = \<lparr>pending = [], files = (\<lambda>name. []), inFlight = []\<rparr>"

section \<open>Properties of the formatter\<close>

declare natToString.simps [simp del]

lemma natToString_digit: "n < 10 \<Longrightarrow> natToString n = [digitChar n]"
  by (subst natToString.simps) simp

lemma natToString_two:
  "10 \<le> n \<Longrightarrow> n < 100 \<Longrightarrow> natToString n = [digitChar (n div 10), digitChar (n mod 10)]"
  by (subst natToString.simps) (simp add: natToString_digit)

lemma natToString_three:
  "100 \<le> n \<Longrightarrow> n < 1000 \<Longrightarrow>
   natToString n = [digitChar (n div 100), digitChar (n div 10 mod 10), digitChar (n mod 10)]"
  by (subst natToString.simps) (simp add: natToString_two div_mult2_eq[symmetric])

lemma padStart2:
  "n < 100 \<Longrightarrow> padStart 2 (natToString n) = [digitChar (n div 10), digitChar (n mod 10)]"
proof (cases "n < 10")
  case True
  then show ?thesis
    by (simp add: padStart_def natToString_digit digitChar_def numeral_2_eq_2)
next
  case False
  assume "n < 100"
  with False show ?thesis by (simp add: padStart_def natToString_two)
qed

lemma padStart3:
  assumes "n < 1000"
  shows "padStart 3 (natToString n) =
           [digitChar (n div 100), digitChar (n div 10 mod 10), digitChar (n mod 10)]"
proof -
  consider "n < 10" | "10 \<le> n" "n < 100" | "100 \<le> n"
    by linarith
  then show ?thesis
  proof cases
    case 1
    then show ?thesis
      by (simp add: padStart_def natToString_digit digitChar_def numeral_2_eq_2)
  next
    case 2
    then show ?thesis by (simp add: padStart_def natToString_two digitChar_def)
  next
    case 3
    with assms show ?thesis by (simp add: padStart_def natToString_three)
  qed
qed

lemma intToString_int: "intToString (int n) = natToString n"
  by (simp add: intToString_def)

lemma jsRem_int: "jsRem (int a) (int b) = int (a mod b)"
  by (simp add: jsRem_def zmod_int)

text \<open>
  C9. For a count \<open>m\<close> of milliseconds that is a natural number up to
  \<open>MAX_SAFE_INTEGER\<close> (where the arithmetic of the source is exact), \<open>formatSrtTime\<close>
  gives the hours of \<open>m div 1000\<close> seconds in decimal, padded with zeros to two code
  units (more when there are a hundred hours or more), a colon, the two decimal digits of
  the minutes, a colon, the two digits of the seconds, a comma and the three digits of
  \<open>m mod 1000\<close>; and \<open>formatSrtTime(3661500)\<close> is \<open>01:01:01,500\<close>.
\<close>

theorem formatSrtTime_renders:
  assumes "m \<le> MAX_SAFE_INTEGER"
  shows "formatSrtTime (Number (int m)) =
     padStart 2 (natToString (m div 1000 div 3600))
     @ [58, digitChar (m div 1000 mod 3600 div 60 div 10),
        digitChar (m div 1000 mod 3600 div 60 mod 10),
        58, digitChar (m div 1000 mod 60 div 10), digitChar (m div 1000 mod 60 mod 10),
        44, digitChar (m mod 1000 div 100), digitChar (m mod 1000 div 10 mod 10),
        digitChar (m mod 1000 mod 10)]
   \<and> 2 \<le> length (padStart 2 (natToString (m div 1000 div 3600)))
   \<and> formatSrtTime (Number 3661500) = js ''01:01:01,500''"
proof -
  have s: "int m div 1000 = int (m div 1000)" by (simp add: zdiv_int)
  have h: "int (m div 1000) div 3600 = int (m div 1000 div 3600)" by (simp add: zdiv_int)
  have r1: "jsRem (int (m div 1000)) 3600 div 60 = int (m div 1000 mod 3600 div 60)"
    using jsRem_int[of "m div 1000" 3600] by (simp add: zdiv_int)
  have r2: "jsRem (int (m div 1000)) 60 = int (m div 1000 mod 60)"
    using jsRem_int[of "m div 1000" 60] by simp
  have r3: "jsRem (int m) 1000 = int (m mod 1000)"
    using jsRem_int[of m 1000] by simp
  have b1: "m div 1000 mod 3600 div 60 < 100"
    by (rule less_trans[of _ 60]) (simp_all add: div_less_iff_less_mult)
  have b2: "m div 1000 mod 60 < 100"
    by (rule less_trans[of _ 60]) simp_all
  have b3: "m mod 1000 < 1000" by simp
  have general: "formatSrtTime (Number (int m)) =
     padStart 2 (natToString (m div 1000 div 3600))
     @ [58, digitChar (m div 1000 mod 3600 div 60 div 10),
        digitChar (m div 1000 mod 3600 div 60 mod 10),
        58, digitChar (m div 1000 mod 60 div 10), digitChar (m div 1000 mod 60 mod 10),
        44, digitChar (m mod 1000 div 100), digitChar (m mod 1000 div 10 mod 10),
        digitChar (m mod 1000 mod 10)]"
    by (simp add: s h r1 r2 r3 intToString_int padStart2[OF b1] padStart2[OF b2]
          padStart3[OF b3] Let_def js_def del: of_nat_div of_nat_mod)
  have len: "2 \<le> length (padStart 2 (natToString (m div 1000 div 3600)))"
    by (simp add: padStart_def)
  have ex: "formatSrtTime (Number 3661500) = js ''01:01:01,500''"
    by code_simp
  from general len ex show ?thesis by blast
qed

theorem formatSrtTime_renders_witness:
  "3661500 \<le> MAX_SAFE_INTEGER
   \<and> formatSrtTime (Number (int 3661500)) =
       padStart 2 (natToString 1) @ [58, digitChar 0, digitChar 1, 58, digitChar 0, digitChar 1,
                                     44, digitChar 5, digitChar 0, digitChar 0]
   \<and> padStart 2 (natToString 1) = js ''01''
   \<and> formatSrtTime (Number 3661500) = js ''01:01:01,500''"
proof -
  have h: "3661500 \<le> MAX_SAFE_INTEGER" by (simp add: MAX_SAFE_INTEGER_def)
  have p: "padStart 2 (natToString 1) = js ''01''" by code_simp
  have a: "(3661500::nat) div 1000 div 3600 = 1"
    "(3661500::nat) div 1000 mod 3600 div 60 div 10 = 0"
    "(3661500::nat) div 1000 mod 3600 div 60 mod 10 = 1"
    "(3661500::nat) div 1000 mod 60 div 10 = 0"
    "(3661500::nat) div 1000 mod 60 mod 10 = 1"
    "(3661500::nat) mod 1000 div 100 = 5"
    "(3661500::nat) mod 1000 div 10 mod 10 = 0"
    "(3661500::nat) mod 1000 mod 10 = 0"
    by simp_all
  note r = formatSrtTime_renders[OF h]
  from r have g: "formatSrtTime (Number (int 3661500)) =
       padStart 2 (natToString 1) @ [58, digitChar 0, digitChar 1, 58, digitChar 0, digitChar 1,
                                     44, digitChar 5, digitChar 0, digitChar 0]"
    by (simp only: a)
  from r have e: "formatSrtTime (Number 3661500) = js ''01:01:01,500''"
    by blast
  from h g p e show ?thesis by blast
qed

section \<open>Properties of the queue\<close>

text \<open>
  C10. A call of \<open>addToFileQueue\<close> whose content is \<open>undefined\<close> or the empty string
  leaves the queue as it was: no task is added, so no empty content reaches a file. This
  holds for both copies of the function.
\<close>

theorem addToFileQueue_empty_content:
  "addToFileQueue host recording None fileExtension isExport fileQueue = fileQueue
   \<and> addToFileQueue host recording (Some []) fileExtension isExport fileQueue = fileQueue
   \<and> addToFileQueue_earlier recordingFileName None fileExtension fileQueue = fileQueue
   \<and> addToFileQueue_earlier recordingFileName (Some []) fileExtension fileQueue = fileQueue"
  by (simp add: addToFileQueue_def addToFileQueue_earlier_def)

section \<open>Properties of the escaping\<close>

text \<open>
  C1. The text of two code units, a backslash and the letter \<open>n\<close>, is not read back as it
  was written: \<open>escapeString\<close> leaves it as it is (a backslash is not escaped), and
  \<open>unescapeString\<close> takes the two code units for an escaped line feed.
\<close>

theorem backslash_n_not_restored:
  "escapeString (Some [BACKSLASH, LETTER_n]) = [BACKSLASH, LETTER_n]
   \<and> decodeText (encodeText [BACKSLASH, LETTER_n]) = [LF]"
  by (simp add: decodeText_def encodeText_def escapeString_def unescapeString_def
        removeDoubleQuotes_def isLineTerminator_def)

text \<open>
  A text with the line separator U+2028 is not restored either: the \<open>.\<close> of
  \<open>removeDoubleQuotes\<close> does not match it, and the quotes stay.
\<close>

lemma line_separator_not_restored:
  "decodeText (encodeText [LINE_SEPARATOR]) = [DQUOTE, LINE_SEPARATOR, DQUOTE]"
  by (simp add: decodeText_def encodeText_def escapeString_def unescapeString_def
        removeDoubleQuotes_def isLineTerminator_def)

text \<open>
  Apart from these two cases the field is read back as written: for a text with no
  escape sequence and neither U+2028 nor U+2029, decoding the encoded text gives the
  text (\<open>round_trip_without_escape_sequences\<close>, at the end of this section).
\<close>

lemma replaceAll_single:
  "replaceAll [c] rep s = concat (map (\<lambda>x. if x = c then rep else [x]) s)"
  by (induction s) simp_all

lemma replaceAll_skip:
  "c \<noteq> p \<Longrightarrow> replaceAll (p # ps) rep (c # cs) = c # replaceAll (p # ps) rep cs"
  by simp

lemma replaceAll_two:
  "replaceAll [p, k] rep (p # c # cs) =
     (if c = k then rep @ replaceAll [p, k] rep cs else p # replaceAll [p, k] rep (c # cs))"
  by simp

lemma replaceAll_two_end: "replaceAll [p, k] rep [p] = [p]"
  by simp

text \<open>\<open>escapeString\<close>, one code unit at a time.\<close>

lemma escape_controls:
  "replaceAll [TAB_CHAR] [BACKSLASH, LETTER_t]
     (replaceAll [CR] [BACKSLASH, LETTER_r]
       (replaceAll [LF] [BACKSLASH, LETTER_n]
         (replaceAll [CR, LF] [BACKSLASH, LETTER_r, BACKSLASH, LETTER_n] t)))
   = concat (map escapeUnit t)"
proof (induction t rule: restoredCRLF.induct)
  case 1
  then show ?case by simp
next
  case (2 c)
  then show ?case by (simp add: replaceAll_single escapeUnit_def)
next
  case (3 c d s)
  show ?case
  proof (cases "c = CR \<and> d = LF")
    case True
    with 3(1) show ?thesis
      by (simp add: replaceAll_single escapeUnit_def)
  next
    case False
    with 3(2) show ?thesis
      by (simp add: replaceAll_single escapeUnit_def)
  qed
qed


lemma escapeString_units:
  "escapeString (Some s)
   = concat (map (\<lambda>c. if c = DQUOTE then [DQUOTE, DQUOTE] else escapeUnit c) s)"
proof -
  have "concat (map escapeUnit (concat (map (\<lambda>x. if x = DQUOTE then [DQUOTE, DQUOTE] else [x]) s)))
        = concat (map (\<lambda>c. if c = DQUOTE then [DQUOTE, DQUOTE] else escapeUnit c) s)"
    by (induction s) (simp_all add: escapeUnit_def)
  moreover have "escapeString (Some s)
                 = concat (map escapeUnit (replaceAll [DQUOTE] [DQUOTE, DQUOTE] s))"
    by (simp only: escapeString_def option.case escape_controls)
  ultimately show ?thesis
    by (simp only: replaceAll_single)
qed

lemma unquote_units:
  "replaceAll [DQUOTE, DQUOTE] [DQUOTE]
     (concat (map (\<lambda>c. if c = DQUOTE then [DQUOTE, DQUOTE] else escapeUnit c) s))
   = concat (map escapeUnit s)"
  by (induction s) (simp_all add: escapeUnit_def)

lemma head_units:
  "take (Suc 0) (concat (map escapeUnit s)) = [k] \<Longrightarrow> k \<noteq> BACKSLASH \<Longrightarrow> take (Suc 0) s = [k]"
  by (cases s) (auto simp: escapeUnit_def split: if_splits)

lemma noEscapeSequence_tl: "noEscapeSequence (c # s) \<Longrightarrow> noEscapeSequence s"
  by (cases s) simp_all

lemma replaceAll_four_copy:
  "take (Suc 0) t \<noteq> [a] \<Longrightarrow>
   replaceAll [p, a, q, b] rep (p # t) = p # replaceAll [p, a, q, b] rep t"
  by (cases t) simp_all

lemma replaceAll_copy:
  "take (length pat) (c # cs) \<noteq> pat
   \<Longrightarrow> replaceAll pat rep (c # cs) = c # replaceAll pat rep cs"
  by simp

lemma replaceAll_four_copy2:
  assumes "take 2 t \<noteq> [p, b]" and "a \<noteq> p"
  shows "replaceAll [p, a, p, b] rep (p # a # t) = p # a # replaceAll [p, a, p, b] rep t"
proof -
  have "take (length [p, a, p, b]) (p # a # t) = p # a # take 2 t"
    by (simp add: numeral_2_eq_2)
  with assms(1) have "take (length [p, a, p, b]) (p # a # t) \<noteq> [p, a, p, b]"
    by simp
  then have step1: "replaceAll [p, a, p, b] rep (p # a # t)
                    = p # replaceAll [p, a, p, b] rep (a # t)"
    by (rule replaceAll_copy)
  from assms(2) have step2: "replaceAll [p, a, p, b] rep (a # t)
                             = a # replaceAll [p, a, p, b] rep t"
    by simp
  show ?thesis by (simp only: step1 step2)
qed

lemma take_two_cons: "take (Suc 0) t \<noteq> [k] \<Longrightarrow> take 2 (p # t) \<noteq> [p, k]"
  by (cases t) (simp_all add: numeral_2_eq_2)

lemma take_two_other: "x \<noteq> p \<Longrightarrow> take 2 (x # t) \<noteq> [p, k]"
  by (cases t) (simp_all add: numeral_2_eq_2)

lemma take_two_pair: "take 2 (x # y # t) = [x, y]"
  by (simp add: numeral_2_eq_2)

lemma restore_crlf_unit:
  assumes "noEscapeSequence (c # d # s)" and "\<not> (c = CR \<and> d = LF)"
  shows "replaceAll [BACKSLASH, LETTER_r, BACKSLASH, LETTER_n] [CR, LF]
           (escapeUnit c @ concat (map escapeUnit (d # s)))
         = escapeUnit c @ replaceAll [BACKSLASH, LETTER_r, BACKSLASH, LETTER_n] [CR, LF]
                            (concat (map escapeUnit (d # s)))"
proof -
  consider "c = BACKSLASH" | "c = CR" | "c \<noteq> BACKSLASH" "c \<noteq> CR" by blast
  then show ?thesis
  proof cases
    case 1
    from assms(1) 1 have "d \<noteq> LETTER_r" by simp
    then have "take (Suc 0) (concat (map escapeUnit (d # s))) \<noteq> [LETTER_r]"
      by (simp add: escapeUnit_def)
    from replaceAll_four_copy[OF this] 1 show ?thesis by (simp add: escapeUnit_def)
  next
    case 2
    with assms(2) have d: "d \<noteq> LF" by simp
    have "take 2 (concat (map escapeUnit (d # s))) \<noteq> [BACKSLASH, LETTER_n]"
    proof (cases "d = BACKSLASH")
      case True
      have "take (Suc 0) (concat (map escapeUnit s)) \<noteq> [LETTER_n]"
      proof
        assume "take (Suc 0) (concat (map escapeUnit s)) = [LETTER_n]"
        from head_units[OF this] have "take (Suc 0) s = [LETTER_n]" by simp
        with assms(1) True show False by (cases s) simp_all
      qed
      from take_two_cons[OF this, of BACKSLASH] True show ?thesis
        by (simp add: escapeUnit_def)
    next
      case False
      with d take_two_other[OF False, of "concat (map escapeUnit s)" LETTER_n]
      show ?thesis by (simp add: escapeUnit_def take_two_pair)
    qed
    from replaceAll_four_copy2[OF this, of LETTER_r "[CR, LF]"] 2 show ?thesis
      by (simp add: escapeUnit_def)
  next
    case 3
    then show ?thesis by (simp add: escapeUnit_def)
  qed
qed

lemma restore_crlf:
  "noEscapeSequence s \<Longrightarrow>
   replaceAll [BACKSLASH, LETTER_r, BACKSLASH, LETTER_n] [CR, LF] (concat (map escapeUnit s))
   = restoredCRLF s"
proof (induction s rule: restoredCRLF.induct)
  case 1
  then show ?case by simp
next
  case (2 c)
  then show ?case by (simp add: escapeUnit_def)
next
  case (3 c d s)
  show ?case
  proof (cases "c = CR \<and> d = LF")
    case True
    from "3.prems" have "noEscapeSequence s"
      using noEscapeSequence_tl noEscapeSequence_tl by blast
    with True 3(1) show ?thesis by (simp add: escapeUnit_def)
  next
    case False
    with 3(2) noEscapeSequence_tl[OF "3.prems"] have ih:
      "replaceAll [BACKSLASH, LETTER_r, BACKSLASH, LETTER_n] [CR, LF]
         (concat (map escapeUnit (d # s))) = restoredCRLF (d # s)"
      by simp
    from restore_crlf_unit[OF "3.prems" False] ih False show ?thesis by auto
  qed
qed

lemma replaceAll_two_copy:
  "take (Suc 0) t \<noteq> [k] \<Longrightarrow> replaceAll [p, k] rep (p # t) = p # replaceAll [p, k] rep t"
  by (cases t) simp_all

lemma head_restoredCRLF:
  "take (Suc 0) (restoredCRLF s) = [k] \<Longrightarrow> k \<noteq> BACKSLASH \<Longrightarrow> k \<noteq> CR
   \<Longrightarrow> take (Suc 0) s = [k]"
  by (induction s rule: restoredCRLF.induct) (auto simp: escapeUnit_def split: if_splits)

lemma head_restoredLF:
  "take (Suc 0) (restoredLF s) = [k] \<Longrightarrow> k \<noteq> BACKSLASH \<Longrightarrow> k \<noteq> CR \<Longrightarrow> k \<noteq> LF
   \<Longrightarrow> take (Suc 0) s = [k]"
  by (induction s rule: restoredLF.induct) (auto simp: escapeUnit_def split: if_splits)

lemma head_restoredCR:
  "take (Suc 0) (restoredCR s) = [k] \<Longrightarrow> k \<noteq> BACKSLASH \<Longrightarrow> take (Suc 0) s = [k]"
  by (cases s) (auto simp: restoredCR_def split: if_splits)

lemma restore_lf_unit:
  assumes "noEscapeSequence (c # s)"
  shows "replaceAll [BACKSLASH, LETTER_n] [LF] (escapeUnit c @ restoredCRLF s)
         = (if c = LF then [LF] else escapeUnit c) @ replaceAll [BACKSLASH, LETTER_n] [LF] (restoredCRLF s)"
proof (cases "c = BACKSLASH")
  case True
  have "take (Suc 0) (restoredCRLF s) \<noteq> [LETTER_n]"
  proof
    assume "take (Suc 0) (restoredCRLF s) = [LETTER_n]"
    from head_restoredCRLF[OF this] have "take (Suc 0) s = [LETTER_n]" by simp
    with assms True show False by (cases s) simp_all
  qed
  from replaceAll_two_copy[OF this] True show ?thesis by (simp add: escapeUnit_def)
next
  case False
  then show ?thesis by (simp add: escapeUnit_def)
qed

lemma restore_lf:
  "noEscapeSequence s \<Longrightarrow>
   replaceAll [BACKSLASH, LETTER_n] [LF] (restoredCRLF s) = restoredLF s"
proof (induction s rule: restoredCRLF.induct)
  case 1
  then show ?case by simp
next
  case (2 c)
  then show ?case using restore_lf_unit[of c "[]"] by simp
next
  case (3 c d s)
  show ?case
  proof (cases "c = CR \<and> d = LF")
    case True
    from "3.prems" have "noEscapeSequence s"
      using noEscapeSequence_tl noEscapeSequence_tl by blast
    with True 3(1) show ?thesis by simp
  next
    case False
    with 3(2) noEscapeSequence_tl[OF "3.prems"]
    have "replaceAll [BACKSLASH, LETTER_n] [LF] (restoredCRLF (d # s)) = restoredLF (d # s)"
      by simp
    with restore_lf_unit[OF "3.prems"] False show ?thesis by auto
  qed
qed


lemma restore_cr_unit:
  assumes "noEscapeSequence (c # s)"
  shows "replaceAll [BACKSLASH, LETTER_r] [CR]
           ((if c = LF then [LF] else escapeUnit c) @ restoredLF s)
         = (if c = TAB_CHAR then [BACKSLASH, LETTER_t] else [c])
           @ replaceAll [BACKSLASH, LETTER_r] [CR] (restoredLF s)"
proof (cases "c = BACKSLASH")
  case True
  have "take (Suc 0) (restoredLF s) \<noteq> [LETTER_r]"
  proof
    assume "take (Suc 0) (restoredLF s) = [LETTER_r]"
    from head_restoredLF[OF this] have "take (Suc 0) s = [LETTER_r]" by simp
    with assms True show False by (cases s) simp_all
  qed
  from replaceAll_two_copy[OF this] True show ?thesis by (simp add: escapeUnit_def)
next
  case False
  then show ?thesis by (simp add: escapeUnit_def)
qed

lemma restore_cr:
  "noEscapeSequence s \<Longrightarrow>
   replaceAll [BACKSLASH, LETTER_r] [CR] (restoredLF s) = restoredCR s"
proof (induction s rule: restoredLF.induct)
  case 1
  then show ?case by (simp add: restoredCR_def)
next
  case (2 c)
  then show ?case using restore_cr_unit[of c "[]"] by (simp add: restoredCR_def)
next
  case (3 c d s)
  show ?case
  proof (cases "c = CR \<and> d = LF")
    case True
    from "3.prems" have "noEscapeSequence s"
      using noEscapeSequence_tl noEscapeSequence_tl by blast
    with True 3(1) show ?thesis by (simp add: restoredCR_def)
  next
    case False
    with 3(2) noEscapeSequence_tl[OF "3.prems"]
    have "replaceAll [BACKSLASH, LETTER_r] [CR] (restoredLF (d # s)) = restoredCR (d # s)"
      by simp
    with restore_cr_unit[OF "3.prems"] False show ?thesis by (auto simp: restoredCR_def)
  qed
qed

lemma restore_tab:
  "noEscapeSequence s \<Longrightarrow>
   replaceAll [BACKSLASH, LETTER_t] [TAB_CHAR] (restoredCR s) = s"
proof (induction s)
  case Nil
  then show ?case by (simp add: restoredCR_def)
next
  case (Cons c s)
  from noEscapeSequence_tl[OF Cons.prems] Cons.IH
  have ih: "replaceAll [BACKSLASH, LETTER_t] [TAB_CHAR] (restoredCR s) = s" by simp
  show ?case
  proof (cases "c = BACKSLASH")
    case True
    have "take (Suc 0) (restoredCR s) \<noteq> [LETTER_t]"
    proof
      assume "take (Suc 0) (restoredCR s) = [LETTER_t]"
      from head_restoredCR[OF this] have "take (Suc 0) s = [LETTER_t]" by simp
      with Cons.prems True show False by (cases s) simp_all
    qed
    from replaceAll_two_copy[OF this, of BACKSLASH "[TAB_CHAR]"] True ih
    show ?thesis by (simp add: restoredCR_def)
  next
    case False
    with ih show ?thesis by (simp add: restoredCR_def)
  qed
qed

lemma unescapeString_escaped:
  assumes "noEscapeSequence s"
  shows "unescapeString (escapeString (Some s)) = s"
  using assms
  by (simp only: unescapeString_def escapeString_units unquote_units restore_crlf restore_lf
        restore_cr restore_tab)

lemma escaped_has_no_line_terminator:
  "\<not> list_ex (\<lambda>c. c = LINE_SEPARATOR \<or> c = PARAGRAPH_SEPARATOR) s
   \<Longrightarrow> \<not> list_ex isLineTerminator (escapeString (Some s))"
  by (induction s) (auto simp: escapeString_units escapeUnit_def isLineTerminator_def)

lemma removeDoubleQuotes_quoted:
  "\<not> list_ex isLineTerminator t \<Longrightarrow> removeDoubleQuotes ([DQUOTE] @ t @ [DQUOTE]) = t"
  by (simp add: removeDoubleQuotes_def butlast_append)

lemma round_trip_without_escape_sequences:
  assumes "noEscapeSequence s"
    and "\<not> list_ex (\<lambda>c. c = LINE_SEPARATOR \<or> c = PARAGRAPH_SEPARATOR) s"
  shows "decodeText (encodeText s) = s"
  using removeDoubleQuotes_quoted[OF escaped_has_no_line_terminator[OF assms(2)]]
    unescapeString_escaped[OF assms(1)]
  by (simp add: decodeText_def encodeText_def)

section \<open>Properties of the replay\<close>

lemma getUpdatedText_clamped:
  "getUpdatedText p (Number (int off)) (Number (int len)) t =
     take (min off (length p)) p @ t
     @ drop (min off (length p) + min len (length p - min off (length p))) p"
proof -
  have a: "nat (min (int off) (int (length p))) = min off (length p)"
    by (simp add: min_def)
  have b: "nat (min (int off) (int (length p))
                + min (max (int len) 0) (int (length p) - min (int off) (int (length p))))
           = min off (length p) + min len (length p - min off (length p))"
    by (simp add: min_def max_def) linarith
  show ?thesis
    unfolding getUpdatedText_def Let_def toIntegerOrInfinity.simps
    using a b by simp
qed

lemma getUpdatedText_nat:
  "getUpdatedText p (Number (int off)) (Number (int len)) t = take off p @ t @ drop (off + len) p"
proof -
  have "drop (min off (length p) + min len (length p - min off (length p))) p
        = drop (off + len) p"
    by (cases "off + len \<le> length p") (simp_all add: min_def)
  moreover have "take (min off (length p)) p = take off p"
    by (simp add: min_def)
  ultimately show ?thesis
    by (simp only: getUpdatedText_clamped)
qed

lemma processCSVLine_row:
  assumes "parseInt (at (splitLine line) 0) \<noteq> NaN"
    and "at (splitLine line) 2 = Some f"
    and "at (splitLine line) 5 = Some field"
  shows "processCSVLine TAB line prev =
     (if (case prev of
            None \<Rightarrow> False
          | Some p \<Rightarrow> strictEquals (parseInt (at (splitLine line) 1)) (startTime p)
                      \<and> removeDoubleQuotes f = file' p
                      \<and> getNewTextContent TAB (at (splitLine line) 7) (decodeText field) prev
                           (parseInt (at (splitLine line) 3)) (parseInt (at (splitLine line) 4)) = text' p
                      \<and> at (splitLine line) 6 = language p)
      then Inr None
      else Inr (Some \<lparr>sequence = (case prev of None \<Rightarrow> 1 | Some p \<Rightarrow> sequence p + 1),
                       file' = removeDoubleQuotes f,
                       startTime = parseInt (at (splitLine line) 1), endTime = Number 0,
                       language = at (splitLine line) 6,
                       text' = getNewTextContent TAB (at (splitLine line) 7) (decodeText field) prev
                           (parseInt (at (splitLine line) 3)) (parseInt (at (splitLine line) 4))\<rparr>))"
  using assms by (cases prev) (simp_all add: processCSVLine_def Let_def decodeText_def)

lemma processCSVLine_not_row:
  "parseInt (at (splitLine line) 0) = NaN \<Longrightarrow> processCSVLine TAB line prev = Inr None"
  by (simp add: processCSVLine_def Let_def)

lemma at_last: "xs \<noteq> [] \<Longrightarrow> at xs (length xs - Suc 0) = Some (last xs)"
  by (simp add: at_def last_conv_nth)

lemma addToSRTFile_last:
  "cs \<noteq> [] \<Longrightarrow> \<exists>q'. addToSRTFile host recording cs (length cs) b q = Inr q'"
  by (simp add: addToSRTFile_def at_last)

text \<open>What one turn of the loop does, by the result of \<open>processCSVLine\<close>.\<close>

lemma replayLine_skip:
  "processCSVLine (ChangeType_TAB host) line (if cs = [] then None else Some (last cs)) = Inr None
   \<Longrightarrow> replayLine host recording fmts line (cs, q) = Inr (cs, q)"
  by (simp add: replayLine_def Let_def)

lemma replayLine_first:
  "processCSVLine (ChangeType_TAB host) line None = Inr (Some c)
   \<Longrightarrow> replayLine host recording fmts line ([], q) = Inr ([c], q)"
  by (simp add: replayLine_def Let_def)

lemma replayLine_next:
  assumes "cs \<noteq> []"
    and "processCSVLine (ChangeType_TAB host) line (Some (last cs)) = Inr (Some c)"
  shows "\<exists>q'. replayLine host recording fmts line (cs, q) =
           Inr (butlast cs @ [(last cs)\<lparr>endTime := startTime c\<rparr>, c], q')"
proof -
  let ?closed = "butlast cs @ [(last cs)\<lparr>endTime := startTime c\<rparr>]"
  have "?closed \<noteq> []" by simp
  from addToSRTFile_last[OF this] obtain q' where
    "addToSRTFile host recording ?closed (length ?closed) True q = Inr q'" by blast
  with assms show ?thesis
    by (cases "js ''SRT'' \<in> set fmts") (simp_all add: replayLine_def Let_def)
qed

lemma replayLine_cases:
  assumes "replayLine host recording fmts line (cs, q) = Inr (cs', q')"
  shows "cs' = cs
         \<or> (\<exists>c. cs = [] \<and> cs' = [c]
                \<and> processCSVLine (ChangeType_TAB host) line None = Inr (Some c))
         \<or> (\<exists>c. cs \<noteq> [] \<and> cs' = butlast cs @ [(last cs)\<lparr>endTime := startTime c\<rparr>, c]
                \<and> processCSVLine (ChangeType_TAB host) line (Some (last cs)) = Inr (Some c))"
proof (cases "processCSVLine (ChangeType_TAB host) line (if cs = [] then None else Some (last cs))")
  case (Inl e)
  with assms show ?thesis by (simp add: replayLine_def Let_def)
next
  case (Inr r)
  show ?thesis
  proof (cases r)
    case None
    with Inr assms show ?thesis using replayLine_skip[of host line cs recording fmts q] by simp
  next
    case (Some c)
    show ?thesis
    proof (cases "cs = []")
      case True
      with Inr Some assms show ?thesis using replayLine_first[of host line c recording fmts q] by simp
    next
      case False
      with Inr Some have "processCSVLine (ChangeType_TAB host) line (Some (last cs)) = Inr (Some c)"
        by simp
      from replayLine_next[OF False this, of recording fmts q] assms False this
      show ?thesis by auto
    qed
  qed
qed

lemma replayLine_content_row:
  assumes "cs \<noteq> []"
    and "parseInt (at (splitLine line) 0) \<noteq> NaN"
    and "at (splitLine line) 2 = Some f"
    and "at (splitLine line) 5 = Some field"
    and "at (splitLine line) 7 \<noteq> Some (ChangeType_TAB host)"
  shows "\<exists>cs' q'. replayLine host recording fmts line (cs, q) = Inr (cs', q') \<and> cs' \<noteq> []
           \<and> text' (last cs') =
               getUpdatedText (text' (last cs)) (parseInt (at (splitLine line) 3))
                 (parseInt (at (splitLine line) 4)) (decodeText field)"
proof -
  let ?new = "getUpdatedText (text' (last cs)) (parseInt (at (splitLine line) 3))
                 (parseInt (at (splitLine line) 4)) (decodeText field)"
  have new: "getNewTextContent (ChangeType_TAB host) (at (splitLine line) 7) (decodeText field)
               (Some (last cs)) (parseInt (at (splitLine line) 3))
               (parseInt (at (splitLine line) 4)) = ?new"
    using assms(5) by (simp add: getNewTextContent_def)
  note row = processCSVLine_row[OF assms(2,3,4), of "ChangeType_TAB host" "Some (last cs)"]
  show ?thesis
  proof (cases "processCSVLine (ChangeType_TAB host) line (Some (last cs))")
    case (Inl e)
    with row show ?thesis by (simp split: if_splits)
  next
    case (Inr r)
    show ?thesis
    proof (cases r)
      case None
      with Inr row new have "text' (last cs) = ?new"
        by (simp split: if_splits)
      moreover from Inr None assms(1)
      have "replayLine host recording fmts line (cs, q) = Inr (cs, q)"
        using replayLine_skip[of host line cs recording fmts q] by simp
      ultimately show ?thesis using assms(1) by simp
    next
      case (Some c)
      with Inr row new have "text' c = ?new"
        by (auto split: if_splits)
      moreover from replayLine_next[OF assms(1), of host line c recording fmts q] Inr Some
      obtain q' where "replayLine host recording fmts line (cs, q) =
           Inr (butlast cs @ [(last cs)\<lparr>endTime := startTime c\<rparr>, c], q')" by auto
      ultimately show ?thesis by simp
    qed
  qed
qed

text \<open>
  C2. In a replay state whose last Change has the text \<open>p\<close>, a valid row that is not a
  TAB row, with the range offset \<open>off\<close>, the range length \<open>len\<close> and
  \<open>off + len \<le> length p\<close>, leaves a state whose last Change has the text \<open>p\<close> with the
  code units from \<open>off\<close> up to \<open>off + len\<close> replaced by the decoded text of the row. (When
  the row is dropped as a duplicate the state is as before, and that text is \<open>p\<close>.)
  The witness is the TAB row \<open>hello\<close> followed by the CONTENT row
  \<open>{rangeOffset: 5, rangeLength: 0, text: " world"}\<close>, which gives \<open>hello world\<close>.
\<close>

theorem content_row_replaces_range:
  assumes "cs \<noteq> []"
    and "parseInt (at (splitLine line) 0) \<noteq> NaN"
    and "at (splitLine line) 2 = Some f"
    and "at (splitLine line) 5 = Some field"
    and "at (splitLine line) 7 \<noteq> Some (ChangeType_TAB host)"
    and "parseInt (at (splitLine line) 3) = Number (int off)"
    and "parseInt (at (splitLine line) 4) = Number (int len)"
    and "off + len \<le> length (text' (last cs))"
  shows "\<exists>cs' q'. replayLine host recording fmts line (cs, q) = Inr (cs', q') \<and> cs' \<noteq> []
           \<and> text' (last cs') =
               take off (text' (last cs)) @ decodeText field @ drop (off + len) (text' (last cs))"
  using replayLine_content_row[OF assms(1-5), of recording fmts q] assms(6,7)
  by (simp add: getUpdatedText_nat)

theorem content_row_replaces_range_witness:
  "[\<lparr>sequence = 1, file' = js ''a.ts'', startTime = Number 0, endTime = Number 0,
      language = Some (js ''typescript''), text' = js ''hello''\<rparr>] \<noteq> []
   \<and> parseInt (at (splitLine (sampleLine 2 500 5 0 (js '' world'') (js ''content''))) 0) \<noteq> NaN
   \<and> at (splitLine (sampleLine 2 500 5 0 (js '' world'') (js ''content''))) 2
       = Some ([DQUOTE] @ js ''a.ts'' @ [DQUOTE])
   \<and> at (splitLine (sampleLine 2 500 5 0 (js '' world'') (js ''content''))) 5
       = Some ([DQUOTE] @ js '' world'' @ [DQUOTE])
   \<and> at (splitLine (sampleLine 2 500 5 0 (js '' world'') (js ''content''))) 7
       \<noteq> Some (ChangeType_TAB sampleHost)
   \<and> parseInt (at (splitLine (sampleLine 2 500 5 0 (js '' world'') (js ''content''))) 3)
       = Number (int 5)
   \<and> parseInt (at (splitLine (sampleLine 2 500 5 0 (js '' world'') (js ''content''))) 4)
       = Number (int 0)
   \<and> 5 + 0 \<le> length (js ''hello'')
   \<and> (\<exists>cs' q'. replayLine sampleHost sampleRecording [js ''SRT'']
                   (sampleLine 2 500 5 0 (js '' world'') (js ''content''))
                   ([\<lparr>sequence = 1, file' = js ''a.ts'', startTime = Number 0, endTime = Number 0,
                       language = Some (js ''typescript''), text' = js ''hello''\<rparr>], [])
                 = Inr (cs', q')
                \<and> cs' \<noteq> [] \<and> text' (last cs') = js ''hello world'')
   \<and> map text' (changes (processCsvFile sampleHost True sampleRecording [js ''SRT'']
                            (Some (js ''/out/''))
                            (Some [sampleLine 1 0 0 0 (js ''hello'') (js ''tab''),
                                   sampleLine 2 500 5 0 (js '' world'') (js ''content'')]) []))
       = [js ''hello'', js ''hello world'']"
proof -
  let ?line = "sampleLine 2 500 5 0 (js '' world'') (js ''content'')"
  let ?cs = "[\<lparr>sequence = 1, file' = js ''a.ts'', startTime = Number 0, endTime = Number 0,
      language = Some (js ''typescript''), text' = js ''hello''\<rparr>]"
  have h1: "?cs \<noteq> []" by simp
  have h2: "parseInt (at (splitLine ?line) 0) \<noteq> NaN" by code_simp
  have h3: "at (splitLine ?line) 2 = Some ([DQUOTE] @ js ''a.ts'' @ [DQUOTE])" by code_simp
  have h4: "at (splitLine ?line) 5 = Some ([DQUOTE] @ js '' world'' @ [DQUOTE])" by code_simp
  have h5: "at (splitLine ?line) 7 \<noteq> Some (ChangeType_TAB sampleHost)" by code_simp
  have h6: "parseInt (at (splitLine ?line) 3) = Number (int 5)" by code_simp
  have h7: "parseInt (at (splitLine ?line) 4) = Number (int 0)" by code_simp
  have h8: "5 + 0 \<le> length (text' (last ?cs))" by (simp add: js_def)
  have d: "decodeText ([DQUOTE] @ js '' world'' @ [DQUOTE]) = js '' world''" by code_simp
  have e: "map text' (changes (processCsvFile sampleHost True sampleRecording [js ''SRT'']
                            (Some (js ''/out/''))
                            (Some [sampleLine 1 0 0 0 (js ''hello'') (js ''tab''), ?line]) []))
       = [js ''hello'', js ''hello world'']" by code_simp
  from content_row_replaces_range[OF h1 h2 h3 h4 h5 h6 h7 h8, of sampleRecording "[js ''SRT'']" "[]"]
  have "\<exists>cs' q'. replayLine sampleHost sampleRecording [js ''SRT''] ?line (?cs, []) = Inr (cs', q')
                \<and> cs' \<noteq> [] \<and> text' (last cs') = js ''hello world''"
    unfolding d by (simp add: js_def)
  with h2 h3 h4 h5 h6 h7 e show ?thesis by (simp add: js_def)
qed

text \<open>
  C5. A valid row that is not a TAB row and whose range \<open>off\<close>, \<open>len\<close> (two natural
  numbers) goes beyond the end of the previous text raises nothing: the new text is the
  splice with the start cut to the length of the previous text and the length cut to what
  is left after the start, and the loop goes on with the rows that follow.
\<close>

theorem out_of_range_row_is_clamped:
  assumes "cs \<noteq> []"
    and "parseInt (at (splitLine line) 0) \<noteq> NaN"
    and "at (splitLine line) 2 = Some f"
    and "at (splitLine line) 5 = Some field"
    and "at (splitLine line) 7 \<noteq> Some (ChangeType_TAB host)"
    and "parseInt (at (splitLine line) 3) = Number (int off)"
    and "parseInt (at (splitLine line) 4) = Number (int len)"
    and "length (text' (last cs)) < off + len"
  shows "\<exists>cs' q'. replayLine host recording fmts line (cs, q) = Inr (cs', q') \<and> cs' \<noteq> []
           \<and> text' (last cs') =
               take (min off (length (text' (last cs)))) (text' (last cs)) @ decodeText field
               @ drop (min off (length (text' (last cs)))
                       + min len (length (text' (last cs)) - min off (length (text' (last cs)))))
                   (text' (last cs))
           \<and> replayLines host recording fmts (line # rest) (cs, q)
               = replayLines host recording fmts rest (cs', q')"
proof -
  from replayLine_content_row[OF assms(1-5), of recording fmts q] assms(6,7)
  obtain cs' q' where r: "replayLine host recording fmts line (cs, q) = Inr (cs', q')"
    and n: "cs' \<noteq> []"
    and t: "text' (last cs') =
              getUpdatedText (text' (last cs)) (Number (int off)) (Number (int len)) (decodeText field)"
    by auto
  from r have "replayLines host recording fmts (line # rest) (cs, q)
               = replayLines host recording fmts rest (cs', q')"
    by simp
  with r n t show ?thesis
    by (simp only: getUpdatedText_clamped) blast
qed

theorem out_of_range_row_is_clamped_witness:
  "[\<lparr>sequence = 1, file' = js ''a.ts'', startTime = Number 0, endTime = Number 0,
      language = Some (js ''typescript''), text' = js ''hello''\<rparr>] \<noteq> []
   \<and> parseInt (at (splitLine (sampleLine 2 500 3 9 (js ''p!'') (js ''content''))) 0) \<noteq> NaN
   \<and> at (splitLine (sampleLine 2 500 3 9 (js ''p!'') (js ''content''))) 2
       = Some ([DQUOTE] @ js ''a.ts'' @ [DQUOTE])
   \<and> at (splitLine (sampleLine 2 500 3 9 (js ''p!'') (js ''content''))) 5
       = Some ([DQUOTE] @ js ''p!'' @ [DQUOTE])
   \<and> at (splitLine (sampleLine 2 500 3 9 (js ''p!'') (js ''content''))) 7
       \<noteq> Some (ChangeType_TAB sampleHost)
   \<and> parseInt (at (splitLine (sampleLine 2 500 3 9 (js ''p!'') (js ''content''))) 3)
       = Number (int 3)
   \<and> parseInt (at (splitLine (sampleLine 2 500 3 9 (js ''p!'') (js ''content''))) 4)
       = Number (int 9)
   \<and> length (js ''hello'') < 3 + 9
   \<and> (\<exists>cs' q'. replayLine sampleHost sampleRecording [js ''SRT'']
                   (sampleLine 2 500 3 9 (js ''p!'') (js ''content''))
                   ([\<lparr>sequence = 1, file' = js ''a.ts'', startTime = Number 0, endTime = Number 0,
                       language = Some (js ''typescript''), text' = js ''hello''\<rparr>], [])
                 = Inr (cs', q')
                \<and> cs' \<noteq> [] \<and> text' (last cs') = js ''help!''
                \<and> replayLines sampleHost sampleRecording [js ''SRT'']
                      [sampleLine 2 500 3 9 (js ''p!'') (js ''content''),
                       sampleLine 3 900 5 0 (js ''?'') (js ''content'')]
                      ([\<lparr>sequence = 1, file' = js ''a.ts'', startTime = Number 0,
                          endTime = Number 0, language = Some (js ''typescript''),
                          text' = js ''hello''\<rparr>], [])
                    = replayLines sampleHost sampleRecording [js ''SRT'']
                        [sampleLine 3 900 5 0 (js ''?'') (js ''content'')] (cs', q'))
   \<and> map text' (changes (processCsvFile sampleHost True sampleRecording [js ''SRT'']
                            (Some (js ''/out/''))
                            (Some [sampleLine 1 0 0 0 (js ''hello'') (js ''tab''),
                                   sampleLine 2 500 3 9 (js ''p!'') (js ''content''),
                                   sampleLine 3 900 5 0 (js ''?'') (js ''content'')]) []))
       = [js ''hello'', js ''help!'', js ''help!?'']"
proof -
  let ?line = "sampleLine 2 500 3 9 (js ''p!'') (js ''content'')"
  let ?cs = "[\<lparr>sequence = 1, file' = js ''a.ts'', startTime = Number 0, endTime = Number 0,
      language = Some (js ''typescript''), text' = js ''hello''\<rparr>]"
  have h1: "?cs \<noteq> []" by simp
  have h2: "parseInt (at (splitLine ?line) 0) \<noteq> NaN" by code_simp
  have h3: "at (splitLine ?line) 2 = Some ([DQUOTE] @ js ''a.ts'' @ [DQUOTE])" by code_simp
  have h4: "at (splitLine ?line) 5 = Some ([DQUOTE] @ js ''p!'' @ [DQUOTE])" by code_simp
  have h5: "at (splitLine ?line) 7 \<noteq> Some (ChangeType_TAB sampleHost)" by code_simp
  have h6: "parseInt (at (splitLine ?line) 3) = Number (int 3)" by code_simp
  have h7: "parseInt (at (splitLine ?line) 4) = Number (int 9)" by code_simp
  have h8: "length (text' (last ?cs)) < 3 + 9" by (simp add: js_def)
  have d: "decodeText ([DQUOTE] @ js ''p!'' @ [DQUOTE]) = js ''p!''" by code_simp
  have e: "map text' (changes (processCsvFile sampleHost True sampleRecording [js ''SRT'']
                            (Some (js ''/out/''))
                            (Some [sampleLine 1 0 0 0 (js ''hello'') (js ''tab''), ?line,
                                   sampleLine 3 900 5 0 (js ''?'') (js ''content'')]) []))
       = [js ''hello'', js ''help!'', js ''help!?'']" by code_simp
  from out_of_range_row_is_clamped[OF h1 h2 h3 h4 h5 h6 h7 h8, of sampleRecording "[js ''SRT'']"
         "[]" "[sampleLine 3 900 5 0 (js ''?'') (js ''content'')]"]
  have "\<exists>cs' q'. replayLine sampleHost sampleRecording [js ''SRT''] ?line (?cs, []) = Inr (cs', q')
                \<and> cs' \<noteq> [] \<and> text' (last cs') = js ''help!''
                \<and> replayLines sampleHost sampleRecording [js ''SRT'']
                      [?line, sampleLine 3 900 5 0 (js ''?'') (js ''content'')] (?cs, [])
                    = replayLines sampleHost sampleRecording [js ''SRT'']
                        [sampleLine 3 900 5 0 (js ''?'') (js ''content'')] (cs', q')"
    unfolding d by (simp add: js_def)
  with h2 h3 h4 h5 h6 h7 e show ?thesis by (simp add: js_def)
qed

text \<open>
  C3. A valid row whose time, file, reconstructed text and language are those of the last
  Change is dropped: \<open>processCSVLine\<close> returns \<open>null\<close> and the turn of the loop leaves the
  array and the queue as they were. The witness is the TAB row \<open>abc\<close> at 0 ms followed by a
  CONTENT row that replaces nothing at 0 ms: the replay gives exactly one Change.
\<close>

theorem duplicate_row_is_dropped:
  assumes "cs \<noteq> []"
    and "parseInt (at (splitLine line) 0) \<noteq> NaN"
    and "at (splitLine line) 2 = Some f"
    and "at (splitLine line) 5 = Some field"
    and "parseInt (at (splitLine line) 1) = Number ms"
    and "startTime (last cs) = Number ms"
    and "removeDoubleQuotes f = file' (last cs)"
    and "getNewTextContent (ChangeType_TAB host) (at (splitLine line) 7) (decodeText field)
           (Some (last cs)) (parseInt (at (splitLine line) 3)) (parseInt (at (splitLine line) 4))
         = text' (last cs)"
    and "at (splitLine line) 6 = language (last cs)"
  shows "processCSVLine (ChangeType_TAB host) line (Some (last cs)) = Inr None
         \<and> replayLine host recording fmts line (cs, q) = Inr (cs, q)"
proof -
  have "processCSVLine (ChangeType_TAB host) line (Some (last cs)) = Inr None"
    using processCSVLine_row[OF assms(2,3,4), of "ChangeType_TAB host" "Some (last cs)"]
      assms(5-9)
    by simp
  with assms(1) show ?thesis
    using replayLine_skip[of host line cs recording fmts q] by simp
qed

theorem duplicate_row_is_dropped_witness:
  "[\<lparr>sequence = 1, file' = js ''a.ts'', startTime = Number 0, endTime = Number 0,
      language = Some (js ''typescript''), text' = js ''abc''\<rparr>] \<noteq> []
   \<and> parseInt (at (splitLine (sampleLine 2 0 0 0 [] (js ''content''))) 0) \<noteq> NaN
   \<and> at (splitLine (sampleLine 2 0 0 0 [] (js ''content''))) 2
       = Some ([DQUOTE] @ js ''a.ts'' @ [DQUOTE])
   \<and> at (splitLine (sampleLine 2 0 0 0 [] (js ''content''))) 5 = Some [DQUOTE, DQUOTE]
   \<and> parseInt (at (splitLine (sampleLine 2 0 0 0 [] (js ''content''))) 1) = Number 0
   \<and> removeDoubleQuotes ([DQUOTE] @ js ''a.ts'' @ [DQUOTE]) = js ''a.ts''
   \<and> getNewTextContent (ChangeType_TAB sampleHost)
         (at (splitLine (sampleLine 2 0 0 0 [] (js ''content''))) 7)
         (decodeText [DQUOTE, DQUOTE])
         (Some \<lparr>sequence = 1, file' = js ''a.ts'', startTime = Number 0, endTime = Number 0,
                 language = Some (js ''typescript''), text' = js ''abc''\<rparr>)
         (parseInt (at (splitLine (sampleLine 2 0 0 0 [] (js ''content''))) 3))
         (parseInt (at (splitLine (sampleLine 2 0 0 0 [] (js ''content''))) 4))
       = js ''abc''
   \<and> at (splitLine (sampleLine 2 0 0 0 [] (js ''content''))) 6 = Some (js ''typescript'')
   \<and> replayLine sampleHost sampleRecording [js ''SRT'', js ''JSON'']
         (sampleLine 2 0 0 0 [] (js ''content''))
         ([\<lparr>sequence = 1, file' = js ''a.ts'', startTime = Number 0, endTime = Number 0,
             language = Some (js ''typescript''), text' = js ''abc''\<rparr>], [])
       = Inr ([\<lparr>sequence = 1, file' = js ''a.ts'', startTime = Number 0, endTime = Number 0,
                 language = Some (js ''typescript''), text' = js ''abc''\<rparr>], [])
   \<and> length (changes (processCsvFile sampleHost True sampleRecording [js ''SRT'', js ''JSON'']
                         (Some (js ''/out/''))
                         (Some [sampleLine 1 0 0 0 (js ''abc'') (js ''tab''),
                                sampleLine 2 0 0 0 [] (js ''content'')]) [])) = 1"
proof -
  let ?line = "sampleLine 2 0 0 0 [] (js ''content'')"
  let ?c = "\<lparr>sequence = 1, file' = js ''a.ts'', startTime = Number 0, endTime = Number 0,
      language = Some (js ''typescript''), text' = js ''abc''\<rparr>"
  have h1: "[?c] \<noteq> []" by simp
  have h2: "parseInt (at (splitLine ?line) 0) \<noteq> NaN" by code_simp
  have h3: "at (splitLine ?line) 2 = Some ([DQUOTE] @ js ''a.ts'' @ [DQUOTE])" by code_simp
  have h4: "at (splitLine ?line) 5 = Some [DQUOTE, DQUOTE]" by code_simp
  have h5: "parseInt (at (splitLine ?line) 1) = Number 0" by code_simp
  have h6: "startTime (last [?c]) = Number 0" by simp
  have h7': "removeDoubleQuotes ([DQUOTE] @ js ''a.ts'' @ [DQUOTE]) = js ''a.ts''" by code_simp
  have h7: "removeDoubleQuotes ([DQUOTE] @ js ''a.ts'' @ [DQUOTE]) = file' (last [?c])"
    using h7' by simp
  have h8': "getNewTextContent (ChangeType_TAB sampleHost) (at (splitLine ?line) 7)
         (decodeText [DQUOTE, DQUOTE]) (Some ?c)
         (parseInt (at (splitLine ?line) 3)) (parseInt (at (splitLine ?line) 4)) = js ''abc''"
    by code_simp
  have h8: "getNewTextContent (ChangeType_TAB sampleHost) (at (splitLine ?line) 7)
         (decodeText [DQUOTE, DQUOTE]) (Some (last [?c]))
         (parseInt (at (splitLine ?line) 3)) (parseInt (at (splitLine ?line) 4))
       = text' (last [?c])"
    using h8' by simp
  have h9': "at (splitLine ?line) 6 = Some (js ''typescript'')" by code_simp
  have h9: "at (splitLine ?line) 6 = language (last [?c])" using h9' by simp
  have e: "length (changes (processCsvFile sampleHost True sampleRecording [js ''SRT'', js ''JSON'']
                         (Some (js ''/out/''))
                         (Some [sampleLine 1 0 0 0 (js ''abc'') (js ''tab''), ?line]) [])) = 1"
    by code_simp
  from duplicate_row_is_dropped[OF h1 h2 h3 h4 h5 h6 h7 h8 h9, of sampleRecording
         "[js ''SRT'', js ''JSON'']" "[]"]
  have "replayLine sampleHost sampleRecording [js ''SRT'', js ''JSON''] ?line ([?c], [])
          = Inr ([?c], [])" by simp
  with h2 h3 h4 h5 h7' h8' h9' e show ?thesis by simp
qed

text \<open>
  C6, as the sources have it. With an empty list of export formats (in a workspace, with
  both date times set) \<open>processCsvFile\<close> returns before it opens the row log: no Change is
  reconstructed, the queue is as before (no export file is written), and the condition is
  logged with the type \<open>info\<close> and shown as a warning.
\<close>

theorem no_export_formats_returns_before_replay:
  assumes "workspaceFolders" and "startDateTime recording \<noteq> None" and "endDateTime recording \<noteq> None"
  shows "processCsvFile host workspaceFolders recording [] exportPath rowLog fileQueue =
           \<lparr>logged = [(Info, ''No export formats specified'')],
            warned = [''No export formats specified''], opened = False, raised = None,
            changes = [], queue = fileQueue, flushed = False\<rparr>"
  using assms by (simp add: processCsvFile_def returned_def)

theorem no_export_formats_returns_before_replay_witness:
  "startDateTime sampleRecording \<noteq> None \<and> endDateTime sampleRecording \<noteq> None
   \<and> processCsvFile sampleHost True sampleRecording [] (Some (js ''/out/''))
         (Some [sampleLine 1 0 0 0 (js ''hello'') (js ''tab'')]) [] =
       \<lparr>logged = [(Info, ''No export formats specified'')],
        warned = [''No export formats specified''], opened = False, raised = None,
        changes = [], queue = [], flushed = False\<rparr>"
  using no_export_formats_returns_before_replay [of True sampleRecording sampleHost "Some (js ''/out/'')"
      "Some [sampleLine 1 0 0 0 (js ''hello'') (js ''tab'')]" "[]"]
  by (simp add: sampleRecording_def)

text \<open>
  C6 as stated fails: with no export format the row log of the sample session is not
  read and no Change is built, while the same log gives one Change when SRT is asked for.
\<close>

theorem no_export_formats_replay_does_not_run:
  "opened (processCsvFile sampleHost True sampleRecording [] (Some (js ''/out/''))
             (Some [sampleLine 1 0 0 0 (js ''hello'') (js ''tab'')]) []) = False
   \<and> changes (processCsvFile sampleHost True sampleRecording [] (Some (js ''/out/''))
             (Some [sampleLine 1 0 0 0 (js ''hello'') (js ''tab'')]) []) = []
   \<and> length (changes (processCsvFile sampleHost True sampleRecording [js ''SRT''] (Some (js ''/out/''))
             (Some [sampleLine 1 0 0 0 (js ''hello'') (js ''tab'')]) [])) = 1"
  by code_simp

section \<open>Properties of a whole replay\<close>

lemma processCSVLine_Some:
  assumes "processCSVLine TAB line prev = Inr (Some c)"
  shows "sequence c = (case prev of None \<Rightarrow> 1 | Some p \<Rightarrow> sequence p + 1)
         \<and> startTime c = rowTime line \<and> isRow line"
  using assms
  by (auto simp: processCSVLine_def Let_def rowTime_def isRow_def split: if_splits option.splits)

lemma processCSVLine_None_row:
  "\<not> isRow line \<Longrightarrow> processCSVLine TAB line prev = Inr None"
  by (simp add: processCSVLine_def Let_def isRow_def)

lemma replayLines_None:
  assumes "replayLines host recording fmts (line # rest) st = (None, st'')"
  shows "\<exists>st'. replayLine host recording fmts line st = Inr st'
               \<and> replayLines host recording fmts rest st' = (None, st'')"
  using assms by (cases "replayLine host recording fmts line st") simp_all

text \<open>The sequence numbers of the array are \<open>1\<close>, \<open>2\<close>, ... at every turn.\<close>

lemma numbered_step:
  assumes "map sequence cs = [1..<Suc (length cs)]" and "cs \<noteq> []"
    and "sequence c = sequence (last cs) + 1"
  shows "map sequence (butlast cs @ [(last cs)\<lparr>endTime := e\<rparr>, c])
         = [1..<Suc (length (butlast cs @ [(last cs)\<lparr>endTime := e\<rparr>, c]))]"
proof -
  from assms(2) have cs: "cs = butlast cs @ [last cs]" by simp
  have l: "sequence (last cs) = length cs"
  proof -
    have "sequence (last cs) = last (map sequence cs)" using assms(2) by (simp add: last_map)
    also have "\<dots> = last [1..<Suc (length cs)]" using assms(1) by simp
    also have "\<dots> = length cs" using assms(2) by (simp add: Suc_le_eq)
    finally show ?thesis .
  qed
  have "map sequence (butlast cs) @ [sequence (last cs)] = [1..<Suc (length cs)]"
    using assms(1) cs by (metis list.simps(8,9) map_append)
  then have "map sequence (butlast cs @ [(last cs)\<lparr>endTime := e\<rparr>, c])
        = [1..<Suc (length cs)] @ [Suc (length cs)]"
    using assms(3) l by simp
  also have "\<dots> = [1..<Suc (Suc (length cs))]" by simp
  finally show ?thesis using assms(2) by simp
qed


lemma replayLine_numbered:
  assumes "replayLine host recording fmts line (cs, q) = Inr (cs', q')"
    and "map sequence cs = [1..<Suc (length cs)]"
  shows "map sequence cs' = [1..<Suc (length cs')]"
proof -
  from replayLine_cases[OF assms(1)]
  consider "cs' = cs"
    | c where "cs = []" "cs' = [c]"
        "processCSVLine (ChangeType_TAB host) line None = Inr (Some c)"
    | c where "cs \<noteq> []" "cs' = butlast cs @ [(last cs)\<lparr>endTime := startTime c\<rparr>, c]"
        "processCSVLine (ChangeType_TAB host) line (Some (last cs)) = Inr (Some c)"
    by blast
  then show ?thesis
  proof cases
    case 1
    with assms(2) show ?thesis by simp
  next
    case 2
    from processCSVLine_Some[OF 2(3)] 2(2) show ?thesis by simp
  next
    case 3
    from processCSVLine_Some[OF 3(3)] have "sequence c = sequence (last cs) + 1" by simp
    from numbered_step[OF assms(2) 3(1) this] 3(2) show ?thesis by simp
  qed
qed

lemma replayLines_numbered:
  "replayLines host recording fmts lines (cs, q) = (r, (cs', q'))
   \<Longrightarrow> map sequence cs = [1..<Suc (length cs)]
   \<Longrightarrow> map sequence cs' = [1..<Suc (length cs')]"
proof (induction lines arbitrary: cs q)
  case Nil
  then show ?case by simp
next
  case (Cons line rest)
  show ?case
  proof (cases "replayLine host recording fmts line (cs, q)")
    case (Inl e)
    with Cons.prems show ?thesis by simp
  next
    case (Inr st)
    obtain cs1 q1 where st: "st = (cs1, q1)" by (cases st)
    from Inr st Cons.prems(2) have "map sequence cs1 = [1..<Suc (length cs1)]"
      using replayLine_numbered by blast
    moreover from Inr st Cons.prems(1)
    have "replayLines host recording fmts rest (cs1, q1) = (r, (cs', q'))" by simp
    ultimately show ?thesis using Cons.IH by blast
  qed
qed

text \<open>What \<open>finalizeRecording\<close> does to the array.\<close>

lemma finalizeRecording_changes:
  assumes "finalizeRecording host recording fmts (cs, q) = Inr (cs', q')"
  shows "cs' = cs
         \<or> (\<exists>s e. cs \<noteq> [] \<and> startDateTime recording = Some s \<and> endDateTime recording = Some e
                  \<and> cs' = butlast cs @ [(last cs)\<lparr>endTime := Number (e - s)\<rparr>])"
  using assms
  by (auto simp: finalizeRecording_def Let_def split: if_splits option.splits sum.splits prod.splits)

lemma finalizeRecording_closed:
  assumes "finalizeRecording host recording fmts (cs, q) = Inr (cs', q')"
    and "cs \<noteq> []" and "startDateTime recording = Some s" and "endDateTime recording = Some e"
  shows "cs' = butlast cs @ [(last cs)\<lparr>endTime := Number (e - s)\<rparr>]"
  using assms
  by (auto simp: finalizeRecording_def Let_def split: if_splits option.splits sum.splits prod.splits)

lemma numbered_close:
  assumes "map sequence cs = [1..<Suc (length cs)]" and "cs \<noteq> []"
  shows "map sequence (butlast cs @ [(last cs)\<lparr>endTime := e\<rparr>])
         = [1..<Suc (length (butlast cs @ [(last cs)\<lparr>endTime := e\<rparr>]))]"
proof -
  from assms(2) have "cs = butlast cs @ [last cs]" by simp
  then have "map sequence cs = map sequence (butlast cs) @ [sequence (last cs)]"
    by (metis list.simps(8,9) map_append)
  with assms show ?thesis by simp
qed

text \<open>The shape of a run of \<open>processCsvFile\<close>.\<close>

lemma processCsvFile_shape:
  "(changes (processCsvFile host ws recording fmts path rowLog q0) = [])
   \<or> (\<exists>lines r st. rowLog = Some lines
         \<and> replayLines host recording fmts lines ([], q0) = (r, st)
         \<and> (changes (processCsvFile host ws recording fmts path rowLog q0) = fst st
            \<or> (\<exists>q'. r = None \<and> raised (processCsvFile host ws recording fmts path rowLog q0) = None
                  \<and> finalizeRecording host recording fmts st
                      = Inr (changes (processCsvFile host ws recording fmts path rowLog q0), q'))))"
  by (auto simp: processCsvFile_def returned_def split: option.splits sum.splits prod.splits)

lemma processCsvFile_completed:
  assumes "raised (processCsvFile host ws recording fmts path rowLog q0) = None"
    and "changes (processCsvFile host ws recording fmts path rowLog q0) \<noteq> []"
  shows "\<exists>lines st q' s e. rowLog = Some lines
           \<and> startDateTime recording = Some s \<and> endDateTime recording = Some e
           \<and> replayLines host recording fmts lines ([], q0) = (None, st)
           \<and> finalizeRecording host recording fmts st
               = Inr (changes (processCsvFile host ws recording fmts path rowLog q0), q')"
  using assms
  by (auto simp: processCsvFile_def returned_def split: if_splits option.splits sum.splits prod.splits)

text \<open>Each Change ends where the next starts.\<close>

lemma linked_step:
  assumes "\<forall>i. Suc i < length cs \<longrightarrow> endTime (cs ! i) = startTime (cs ! Suc i)"
    and "cs \<noteq> []"
  shows "\<forall>i. Suc i < length (butlast cs @ [(last cs)\<lparr>endTime := startTime c\<rparr>, c])
           \<longrightarrow> endTime ((butlast cs @ [(last cs)\<lparr>endTime := startTime c\<rparr>, c]) ! i)
               = startTime ((butlast cs @ [(last cs)\<lparr>endTime := startTime c\<rparr>, c]) ! Suc i)"
proof (intro allI impI)
  fix i
  let ?cs' = "butlast cs @ [(last cs)\<lparr>endTime := startTime c\<rparr>, c]"
  assume "Suc i < length ?cs'"
  with assms(2) have i: "i < length cs" by simp
  from assms(2) have n: "length (butlast cs) = length cs - 1" by simp
  consider "Suc i < length cs - 1" | "Suc i = length cs - 1" | "i = length cs - 1"
    using i by linarith
  then show "endTime (?cs' ! i) = startTime (?cs' ! Suc i)"
  proof cases
    case 1
    then have "?cs' ! i = cs ! i" "?cs' ! Suc i = cs ! Suc i"
      by (simp_all add: nth_append nth_butlast)
    moreover from 1 have "Suc i < length cs" by simp
    ultimately show ?thesis using assms(1) by simp
  next
    case 2
    then have a: "?cs' ! i = cs ! i" by (simp add: nth_append nth_butlast)
    from 2 have b: "?cs' ! Suc i = (last cs)\<lparr>endTime := startTime c\<rparr>"
      by (simp add: nth_append n)
    from 2 assms(2) have "last cs = cs ! Suc i" by (simp add: last_conv_nth)
    moreover from 2 i have "Suc i < length cs" by simp
    ultimately show ?thesis using a b assms(1) by simp
  next
    case 3
    with assms(2) have "?cs' ! i = (last cs)\<lparr>endTime := startTime c\<rparr>" "?cs' ! Suc i = c"
      by (simp_all add: nth_append n)
    then show ?thesis by simp
  qed
qed

lemma linked_close:
  assumes "\<forall>i. Suc i < length cs \<longrightarrow> endTime (cs ! i) = startTime (cs ! Suc i)"
    and "cs \<noteq> []"
  shows "\<forall>i. Suc i < length (butlast cs @ [(last cs)\<lparr>endTime := e\<rparr>])
           \<longrightarrow> endTime ((butlast cs @ [(last cs)\<lparr>endTime := e\<rparr>]) ! i)
               = startTime ((butlast cs @ [(last cs)\<lparr>endTime := e\<rparr>]) ! Suc i)"
proof (intro allI impI)
  fix i
  let ?cs' = "butlast cs @ [(last cs)\<lparr>endTime := e\<rparr>]"
  assume "Suc i < length ?cs'"
  with assms(2) have i: "Suc i < length cs" by simp
  from assms(2) have n: "length (butlast cs) = length cs - 1" by simp
  from i have a: "?cs' ! i = cs ! i" by (simp add: nth_append nth_butlast)
  have "startTime (?cs' ! Suc i) = startTime (cs ! Suc i)"
  proof (cases "Suc i < length cs - 1")
    case True
    then show ?thesis by (simp add: nth_append nth_butlast)
  next
    case False
    with i have s: "Suc i = length cs - 1" by linarith
    then have "?cs' ! Suc i = (last cs)\<lparr>endTime := e\<rparr>" by (simp add: nth_append n)
    moreover from s assms(2) have "last cs = cs ! Suc i" by (simp add: last_conv_nth)
    ultimately show ?thesis by simp
  qed
  with a assms(1) i show "endTime (?cs' ! i) = startTime (?cs' ! Suc i)" by simp
qed

lemma replayLines_linked:
  "replayLines host recording fmts lines (cs, q) = (r, (cs', q'))
   \<Longrightarrow> \<forall>i. Suc i < length cs \<longrightarrow> endTime (cs ! i) = startTime (cs ! Suc i)
   \<Longrightarrow> \<forall>i. Suc i < length cs' \<longrightarrow> endTime (cs' ! i) = startTime (cs' ! Suc i)"
proof (induction lines arbitrary: cs q)
  case Nil
  then show ?case by simp
next
  case (Cons line rest)
  show ?case
  proof (cases "replayLine host recording fmts line (cs, q)")
    case (Inl e)
    with Cons.prems show ?thesis by simp
  next
    case (Inr st)
    obtain cs1 q1 where st: "st = (cs1, q1)" by (cases st)
    from Inr st have rl: "replayLine host recording fmts line (cs, q) = Inr (cs1, q1)" by simp
    from replayLine_cases[OF rl]
    consider "cs1 = cs"
      | c where "cs = []" "cs1 = [c]"
      | c where "cs \<noteq> []" "cs1 = butlast cs @ [(last cs)\<lparr>endTime := startTime c\<rparr>, c]"
      by blast
    then have "\<forall>i. Suc i < length cs1 \<longrightarrow> endTime (cs1 ! i) = startTime (cs1 ! Suc i)"
    proof cases
      case 1
      with Cons.prems(2) show ?thesis by simp
    next
      case 2
      then show ?thesis by simp
    next
      case 3
      from linked_step[OF Cons.prems(2) 3(1), of c] 3(2) show ?thesis by simp
    qed
    moreover from Inr st Cons.prems(1)
    have "replayLines host recording fmts rest (cs1, q1) = (r, (cs', q'))" by simp
    ultimately show ?thesis using Cons.IH by blast
  qed
qed

text \<open>
  C4. When a replay ends without an exception and has emitted at least one Change, each
  Change but the last has the start time of the next one as its end time, and the end
  time of the last is the end of the session minus its start. The witness is a log of
  three distinct Changes in the sample session of 5000 ms: the end times are 1000, 2500
  and 5000.
\<close>

theorem intervals_are_closed:
  assumes "raised (processCsvFile host ws recording fmts path rowLog q0) = None"
    and "changes (processCsvFile host ws recording fmts path rowLog q0) \<noteq> []"
  shows "(\<forall>i. Suc i < length (changes (processCsvFile host ws recording fmts path rowLog q0))
            \<longrightarrow> endTime (changes (processCsvFile host ws recording fmts path rowLog q0) ! i)
                = startTime (changes (processCsvFile host ws recording fmts path rowLog q0) ! Suc i))
         \<and> (\<exists>s e. startDateTime recording = Some s \<and> endDateTime recording = Some e
                \<and> endTime (last (changes (processCsvFile host ws recording fmts path rowLog q0)))
                    = Number (e - s))"
proof -
  let ?cs = "changes (processCsvFile host ws recording fmts path rowLog q0)"
  from processCsvFile_completed[OF assms]
  obtain lines st q' s e where s: "startDateTime recording = Some s"
    and e: "endDateTime recording = Some e"
    and rl: "replayLines host recording fmts lines ([], q0) = (None, st)"
    and fin: "finalizeRecording host recording fmts st = Inr (?cs, q')"
    by blast
  obtain cs1 q1 where st: "st = (cs1, q1)" by (cases st)
  have l1: "\<forall>i. Suc i < length cs1 \<longrightarrow> endTime (cs1 ! i) = startTime (cs1 ! Suc i)"
    using replayLines_linked[of host recording fmts lines "[]" q0 None cs1 q1] rl st by simp
  have ne: "cs1 \<noteq> []"
    using finalizeRecording_changes[of host recording fmts cs1 q1 ?cs q'] fin st assms(2)
    by auto
  from finalizeRecording_closed[OF _ ne s e, of host fmts q1 ?cs q'] fin st
  have cs: "?cs = butlast cs1 @ [(last cs1)\<lparr>endTime := Number (e - s)\<rparr>]" by simp
  have "\<forall>i. Suc i < length ?cs \<longrightarrow> endTime (?cs ! i) = startTime (?cs ! Suc i)"
    using linked_close[OF l1 ne, of "Number (e - s)"] cs by simp
  moreover have "endTime (last ?cs) = Number (e - s)"
    by (subst cs) simp
  ultimately show ?thesis using s e by blast
qed

theorem intervals_are_closed_witness:
  "raised (processCsvFile sampleHost True sampleRecording [js ''SRT'', js ''JSON'']
             (Some (js ''/out/''))
             (Some [sampleLine 1 0 0 0 (js ''a'') (js ''tab''),
                    sampleLine 2 1000 1 0 (js ''b'') (js ''content''),
                    sampleLine 3 2500 2 0 (js ''c'') (js ''content'')]) []) = None
   \<and> map startTime (changes (processCsvFile sampleHost True sampleRecording [js ''SRT'', js ''JSON'']
             (Some (js ''/out/''))
             (Some [sampleLine 1 0 0 0 (js ''a'') (js ''tab''),
                    sampleLine 2 1000 1 0 (js ''b'') (js ''content''),
                    sampleLine 3 2500 2 0 (js ''c'') (js ''content'')]) []))
       = [Number 0, Number 1000, Number 2500]
   \<and> map endTime (changes (processCsvFile sampleHost True sampleRecording [js ''SRT'', js ''JSON'']
             (Some (js ''/out/''))
             (Some [sampleLine 1 0 0 0 (js ''a'') (js ''tab''),
                    sampleLine 2 1000 1 0 (js ''b'') (js ''content''),
                    sampleLine 3 2500 2 0 (js ''c'') (js ''content'')]) []))
       = [Number 1000, Number 2500, Number 5000]
   \<and> endTime (last (changes (processCsvFile sampleHost True sampleRecording
                 [js ''SRT'', js ''JSON''] (Some (js ''/out/''))
                 (Some [sampleLine 1 0 0 0 (js ''a'') (js ''tab''),
                        sampleLine 2 1000 1 0 (js ''b'') (js ''content''),
                        sampleLine 3 2500 2 0 (js ''c'') (js ''content'')]) [])))
       = Number (6000 - 1000)"
proof -
  let ?R = "processCsvFile sampleHost True sampleRecording [js ''SRT'', js ''JSON'']
             (Some (js ''/out/''))
             (Some [sampleLine 1 0 0 0 (js ''a'') (js ''tab''),
                    sampleLine 2 1000 1 0 (js ''b'') (js ''content''),
                    sampleLine 3 2500 2 0 (js ''c'') (js ''content'')]) []"
  have h1: "raised ?R = None" by code_simp
  have s: "map startTime (changes ?R) = [Number 0, Number 1000, Number 2500]" by code_simp
  have e: "map endTime (changes ?R) = [Number 1000, Number 2500, Number 5000]" by code_simp
  from s have h2: "changes ?R \<noteq> []" by auto
  from intervals_are_closed[OF h1 h2]
  have "endTime (last (changes ?R)) = Number (6000 - 1000)"
    by (simp add: sampleRecording_def)
  with h1 s e show ?thesis by blast
qed


text \<open>Start times and end times in order.\<close>

lemma ordered_step:
  assumes "\<forall>c\<in>set (butlast cs). lessEq (startTime c) (endTime c)"
    and "cs \<noteq> []" and "startTime (last cs) = Number t" and "t \<le> u"
  shows "\<forall>x\<in>set (butlast (butlast cs @ [(last cs)\<lparr>endTime := Number u\<rparr>, c])).
           lessEq (startTime x) (endTime x)"
proof -
  have "butlast (butlast cs @ [(last cs)\<lparr>endTime := Number u\<rparr>, c])
        = butlast cs @ [(last cs)\<lparr>endTime := Number u\<rparr>]"
    by (simp add: butlast_append)
  with assms show ?thesis by auto
qed

lemma replayLines_ordered:
  "replayLines host recording fmts lines (cs, q) = (None, (cs', q'))
   \<Longrightarrow> map rowTime (filter isRow lines) = map Number ts
   \<Longrightarrow> sorted ts
   \<Longrightarrow> \<forall>t\<in>set ts. t \<le> d
   \<Longrightarrow> \<forall>c\<in>set (butlast cs). lessEq (startTime c) (endTime c)
   \<Longrightarrow> cs \<noteq> [] \<longrightarrow> (\<exists>t. startTime (last cs) = Number t \<and> t \<le> d \<and> (\<forall>u\<in>set ts. t \<le> u))
   \<Longrightarrow> (\<forall>c\<in>set (butlast cs'). lessEq (startTime c) (endTime c))
       \<and> (cs' \<noteq> [] \<longrightarrow> (\<exists>t. startTime (last cs') = Number t \<and> t \<le> d))"
proof (induction lines arbitrary: cs q ts)
  case Nil
  then show ?case by auto
next
  case (Cons line rest)
  from replayLines_None[OF Cons.prems(1)] obtain st1 where
    rl: "replayLine host recording fmts line (cs, q) = Inr st1"
    and rest: "replayLines host recording fmts rest st1 = (None, (cs', q'))" by blast
  obtain cs1 q1 where st1: "st1 = (cs1, q1)" by (cases st1)
  note rl = rl[unfolded st1] and rest = rest[unfolded st1]
  show ?case
  proof (cases "isRow line")
    case False
    then have "processCSVLine (ChangeType_TAB host) line (if cs = [] then None else Some (last cs))
               = Inr None"
      by (rule processCSVLine_None_row)
    from replayLine_skip[OF this, of recording fmts q] rl have "cs1 = cs" by simp
    moreover from False Cons.prems(2) have "map rowTime (filter isRow rest) = map Number ts"
      by simp
    ultimately show ?thesis
      using Cons.IH[OF _ _ Cons.prems(3,4)] rest Cons.prems(5,6) by blast
  next
    case True
    with Cons.prems(2) obtain u ts' where ts: "ts = u # ts'"
      and u: "rowTime line = Number u"
      and ts': "map rowTime (filter isRow rest) = map Number ts'"
      by (cases ts) auto
    from Cons.prems(3) ts have sorted': "sorted ts'" and le: "\<forall>v\<in>set ts'. u \<le> v" by auto
    from Cons.prems(4) ts have bound': "\<forall>t\<in>set ts'. t \<le> d" and ud: "u \<le> d" by auto
    from replayLine_cases[OF rl]
    consider "cs1 = cs"
      | c where "cs = []" "cs1 = [c]"
          "processCSVLine (ChangeType_TAB host) line None = Inr (Some c)"
      | c where "cs \<noteq> []" "cs1 = butlast cs @ [(last cs)\<lparr>endTime := startTime c\<rparr>, c]"
          "processCSVLine (ChangeType_TAB host) line (Some (last cs)) = Inr (Some c)"
      by blast
    then show ?thesis
    proof cases
      case 1
      have "cs1 \<noteq> [] \<longrightarrow> (\<exists>t. startTime (last cs1) = Number t \<and> t \<le> d \<and> (\<forall>u\<in>set ts'. t \<le> u))"
        using Cons.prems(6) 1 ts by auto
      with Cons.IH[OF rest ts' sorted' bound'] Cons.prems(5) 1 show ?thesis by blast
    next
      case 2
      from processCSVLine_Some[OF 2(3)] u have "startTime c = Number u" by simp
      with 2 le ud have
        "cs1 \<noteq> [] \<longrightarrow> (\<exists>t. startTime (last cs1) = Number t \<and> t \<le> d \<and> (\<forall>u\<in>set ts'. t \<le> u))"
        by simp
      moreover from 2 have "\<forall>c\<in>set (butlast cs1). lessEq (startTime c) (endTime c)" by simp
      ultimately show ?thesis using Cons.IH[OF rest ts' sorted' bound'] by blast
    next
      case 3
      from processCSVLine_Some[OF 3(3)] u have sc: "startTime c = Number u" by simp
      from Cons.prems(6) 3(1) ts obtain t where t: "startTime (last cs) = Number t" "t \<le> u"
        by auto
      from ordered_step[OF Cons.prems(5) 3(1) t, of c] 3(2) sc
      have a: "\<forall>c\<in>set (butlast cs1). lessEq (startTime c) (endTime c)" by simp
      from 3(2) sc le ud have
        "cs1 \<noteq> [] \<longrightarrow> (\<exists>t. startTime (last cs1) = Number t \<and> t \<le> d \<and> (\<forall>u\<in>set ts'. t \<le> u))"
        by simp
      with a show ?thesis using Cons.IH[OF rest ts' sorted' bound'] by blast
    qed
  qed
qed

text \<open>
  C8, as the sources have it. The sequence numbers of the emitted Changes are
  \<open>1, 2, ..., N\<close> whatever the rows hold. When the replay ends without an exception and
  the times of the rows of the log are integers that do not decrease along the log and
  none is beyond the duration of the session, every emitted Change has
  \<open>startTime <= endTime\<close>.
\<close>

theorem sequences_contiguous_and_times_ordered:
  "map sequence (changes (processCsvFile host ws recording fmts path rowLog q0))
     = [1..<Suc (length (changes (processCsvFile host ws recording fmts path rowLog q0)))]
   \<and> (raised (processCsvFile host ws recording fmts path rowLog q0) = None
       \<and> rowLog = Some lines
       \<and> startDateTime recording = Some s \<and> endDateTime recording = Some e
       \<and> map rowTime (filter isRow lines) = map Number ts
       \<and> sorted ts \<and> (\<forall>t\<in>set ts. t \<le> e - s)
      \<longrightarrow> (\<forall>c\<in>set (changes (processCsvFile host ws recording fmts path rowLog q0)).
             lessEq (startTime c) (endTime c)))"
proof (intro conjI impI)
  let ?R = "processCsvFile host ws recording fmts path rowLog q0"
  show "map sequence (changes ?R) = [1..<Suc (length (changes ?R))]"
  proof -
    from processCsvFile_shape[of host ws recording fmts path rowLog q0]
    consider "changes ?R = []"
      | lines r st where "replayLines host recording fmts lines ([], q0) = (r, st)"
          "changes ?R = fst st"
      | lines st q' where "replayLines host recording fmts lines ([], q0) = (None, st)"
          "finalizeRecording host recording fmts st = Inr (changes ?R, q')"
      by blast
    then show ?thesis
    proof cases
      case 1
      then show ?thesis by simp
    next
      case 2
      obtain cs1 q1 where st: "st = (cs1, q1)" by (cases st)
      from replayLines_numbered[of host recording fmts lines "[]" q0 r cs1 q1] 2 st
      show ?thesis by simp
    next
      case 3
      obtain cs1 q1 where st: "st = (cs1, q1)" by (cases st)
      from replayLines_numbered[of host recording fmts lines "[]" q0 None cs1 q1] 3 st
      have n: "map sequence cs1 = [1..<Suc (length cs1)]" by simp
      from finalizeRecording_changes[of host recording fmts cs1 q1 "changes ?R" q'] 3(2) st
      consider "changes ?R = cs1"
        | s e where "cs1 \<noteq> []" "changes ?R = butlast cs1 @ [(last cs1)\<lparr>endTime := Number (e - s)\<rparr>]"
        by auto
      then show ?thesis
      proof cases
        case 1
        with n show ?thesis by simp
      next
        case 2
        from numbered_close[OF n 2(1), of "Number (e - s)"] 2(2) show ?thesis by simp
      qed
    qed
  qed
next
  let ?R = "processCsvFile host ws recording fmts path rowLog q0"
  assume h: "raised ?R = None \<and> rowLog = Some lines
       \<and> startDateTime recording = Some s \<and> endDateTime recording = Some e
       \<and> map rowTime (filter isRow lines) = map Number ts
       \<and> sorted ts \<and> (\<forall>t\<in>set ts. t \<le> e - s)"
  show "\<forall>c\<in>set (changes ?R). lessEq (startTime c) (endTime c)"
  proof (cases "changes ?R = []")
    case True
    then show ?thesis by simp
  next
    case False
    from h have r: "raised ?R = None" by blast
    from processCsvFile_completed[OF r False] h
    obtain st q' where rl: "replayLines host recording fmts lines ([], q0) = (None, st)"
      and fin: "finalizeRecording host recording fmts st = Inr (changes ?R, q')"
      by auto
    obtain cs1 q1 where st: "st = (cs1, q1)" by (cases st)
    from h have ts: "map rowTime (filter isRow lines) = map Number ts" and so: "sorted ts"
      and bd: "\<forall>t\<in>set ts. t \<le> e - s" by blast+
    from replayLines_ordered[OF rl[unfolded st] ts so bd]
    have a: "\<forall>c\<in>set (butlast cs1). lessEq (startTime c) (endTime c)"
      and b: "cs1 \<noteq> [] \<longrightarrow> (\<exists>t. startTime (last cs1) = Number t \<and> t \<le> e - s)"
      by simp_all
    have ne: "cs1 \<noteq> []"
      using finalizeRecording_changes[of host recording fmts cs1 q1 "changes ?R" q'] fin st False
      by auto
    from h have s: "startDateTime recording = Some s" and e: "endDateTime recording = Some e"
      by blast+
    from finalizeRecording_closed[OF _ ne s e, of host fmts q1 "changes ?R" q'] fin st
    have cs: "changes ?R = butlast cs1 @ [(last cs1)\<lparr>endTime := Number (e - s)\<rparr>]" by simp
    from b ne obtain t where "startTime (last cs1) = Number t" "t \<le> e - s" by blast
    then have "lessEq (startTime ((last cs1)\<lparr>endTime := Number (e - s)\<rparr>))
                 (endTime ((last cs1)\<lparr>endTime := Number (e - s)\<rparr>))" by simp
    with a show ?thesis by (subst cs) auto
  qed
qed

theorem sequences_contiguous_and_times_ordered_witness:
  "map sequence (changes (processCsvFile sampleHost True sampleRecording [js ''SRT'', js ''JSON'']
             (Some (js ''/out/''))
             (Some [js ''Sequence,Time,File,RangeOffset,RangeLength,Text,Language,Type'',
                    sampleLine 1 0 0 0 (js ''a'') (js ''tab''),
                    sampleLine 2 0 0 0 [] (js ''content''),
                    sampleLine 3 1000 1 0 (js ''b'') (js ''content'')]) []))
     = [1, 2]
   \<and> raised (processCsvFile sampleHost True sampleRecording [js ''SRT'', js ''JSON'']
             (Some (js ''/out/''))
             (Some [js ''Sequence,Time,File,RangeOffset,RangeLength,Text,Language,Type'',
                    sampleLine 1 0 0 0 (js ''a'') (js ''tab''),
                    sampleLine 2 0 0 0 [] (js ''content''),
                    sampleLine 3 1000 1 0 (js ''b'') (js ''content'')]) []) = None
   \<and> startDateTime sampleRecording = Some 1000 \<and> endDateTime sampleRecording = Some 6000
   \<and> map rowTime (filter isRow
             [js ''Sequence,Time,File,RangeOffset,RangeLength,Text,Language,Type'',
              sampleLine 1 0 0 0 (js ''a'') (js ''tab''),
              sampleLine 2 0 0 0 [] (js ''content''),
              sampleLine 3 1000 1 0 (js ''b'') (js ''content'')])
       = map Number [0, 0, 1000]
   \<and> sorted [0, 0, 1000 :: int] \<and> list_all (\<lambda>t. t \<le> 6000 - 1000) [0, 0, 1000 :: int]
   \<and> list_all (\<lambda>c. lessEq (startTime c) (endTime c))
        (changes (processCsvFile sampleHost True sampleRecording [js ''SRT'', js ''JSON'']
             (Some (js ''/out/''))
             (Some [js ''Sequence,Time,File,RangeOffset,RangeLength,Text,Language,Type'',
                    sampleLine 1 0 0 0 (js ''a'') (js ''tab''),
                    sampleLine 2 0 0 0 [] (js ''content''),
                    sampleLine 3 1000 1 0 (js ''b'') (js ''content'')]) []))"
proof -
  let ?lines = "[js ''Sequence,Time,File,RangeOffset,RangeLength,Text,Language,Type'',
                    sampleLine 1 0 0 0 (js ''a'') (js ''tab''),
                    sampleLine 2 0 0 0 [] (js ''content''),
                    sampleLine 3 1000 1 0 (js ''b'') (js ''content'')]"
  let ?R = "processCsvFile sampleHost True sampleRecording [js ''SRT'', js ''JSON'']
             (Some (js ''/out/'')) (Some ?lines) []"
  have n: "length (changes ?R) = 2" by code_simp
  have h1: "raised ?R = None" by code_simp
  have h2: "startDateTime sampleRecording = Some 1000" "endDateTime sampleRecording = Some 6000"
    by (simp_all add: sampleRecording_def)
  have h3: "map rowTime (filter isRow ?lines) = map Number [0, 0, 1000]" by code_simp
  have h4: "sorted [0, 0, 1000 :: int]" "\<forall>t\<in>set [0, 0, 1000 :: int]. t \<le> 6000 - 1000"
    by simp_all
  note inst = sequences_contiguous_and_times_ordered[of sampleHost True sampleRecording
      "[js ''SRT'', js ''JSON'']" "Some (js ''/out/'')" "Some ?lines" "[]" ?lines 1000 6000
      "[0, 0, 1000]"]
  from inst n have a: "map sequence (changes ?R) = [1, 2]"
    by (simp add: upt_rec)
  from inst h1 h2 h3 h4 have b: "\<forall>c\<in>set (changes ?R). lessEq (startTime c) (endTime c)"
    by blast
  from a b h1 h2 h3 h4 show ?thesis by (simp add: list_all_iff)
qed


text \<open>
  C8 as stated fails: the replay does not look at the order of the times. A log whose
  second row is stamped 5 ms after a first row stamped 10 ms gives a first Change that
  starts at 10 and ends at 5.
\<close>

theorem start_after_end_in_unordered_log:
  "raised (processCsvFile sampleHost True sampleRecording [js ''JSON''] (Some (js ''/out/''))
             (Some [sampleLine 1 10 0 0 (js ''a'') (js ''tab''),
                    sampleLine 2 5 0 0 (js ''b'') (js ''tab'')]) []) = None
   \<and> map startTime (changes (processCsvFile sampleHost True sampleRecording [js ''JSON'']
             (Some (js ''/out/''))
             (Some [sampleLine 1 10 0 0 (js ''a'') (js ''tab''),
                    sampleLine 2 5 0 0 (js ''b'') (js ''tab'')]) [])) = [Number 10, Number 5]
   \<and> map endTime (changes (processCsvFile sampleHost True sampleRecording [js ''JSON'']
             (Some (js ''/out/''))
             (Some [sampleLine 1 10 0 0 (js ''a'') (js ''tab''),
                    sampleLine 2 5 0 0 (js ''b'') (js ''tab'')]) [])) = [Number 5, Number 5000]
   \<and> \<not> lessEq (startTime (hd (changes (processCsvFile sampleHost True sampleRecording
             [js ''JSON''] (Some (js ''/out/''))
             (Some [sampleLine 1 10 0 0 (js ''a'') (js ''tab''),
                    sampleLine 2 5 0 0 (js ''b'') (js ''tab'')]) []))))
        (endTime (hd (changes (processCsvFile sampleHost True sampleRecording
             [js ''JSON''] (Some (js ''/out/''))
             (Some [sampleLine 1 10 0 0 (js ''a'') (js ''tab''),
                    sampleLine 2 5 0 0 (js ''b'') (js ''tab'')]) []))))"
  by code_simp

section \<open>Properties of draining the queue\<close>

text \<open>
  C7. The handler of \<open>onDidChangeTextDocument\<close> does, for each content change of one
  event, \<open>addToFileQueue(row)\<close> and then \<open>appendToFile()\<close>, without waiting. For an event
  with two changes the second call finds the first row still at the head of the queue
  and writes it again. When both writes of \<open>row1\<close> have ended, \<open>row1\<close> is twice in the file
  and \<open>row2\<close> has left the queue while its own write is still in flight; the file holds
  \<open>row1row1row2\<close> if that write succeeds, and \<open>row2\<close> is lost if it fails.
\<close>

theorem overlapping_calls_write_twice_and_drop:
  "pending (run emptyWriter
      [Enqueue \<lparr>name = js ''log.csv'', content = js ''row1''\<rparr>, AppendToFile,
       Enqueue \<lparr>name = js ''log.csv'', content = js ''row2''\<rparr>, AppendToFile,
       WriteEnds 0 True, WriteEnds 1 True]) = []
   \<and> inFlight (run emptyWriter
      [Enqueue \<lparr>name = js ''log.csv'', content = js ''row1''\<rparr>, AppendToFile,
       Enqueue \<lparr>name = js ''log.csv'', content = js ''row2''\<rparr>, AppendToFile,
       WriteEnds 0 True, WriteEnds 1 True])
     = [\<lparr>name = js ''log.csv'', content = js ''row2''\<rparr>]
   \<and> files (run emptyWriter
      [Enqueue \<lparr>name = js ''log.csv'', content = js ''row1''\<rparr>, AppendToFile,
       Enqueue \<lparr>name = js ''log.csv'', content = js ''row2''\<rparr>, AppendToFile,
       WriteEnds 0 True, WriteEnds 1 True]) (js ''log.csv'') = js ''row1row1''
   \<and> files (run emptyWriter
      [Enqueue \<lparr>name = js ''log.csv'', content = js ''row1''\<rparr>, AppendToFile,
       Enqueue \<lparr>name = js ''log.csv'', content = js ''row2''\<rparr>, AppendToFile,
       WriteEnds 0 True, WriteEnds 1 True, WriteEnds 0 True]) (js ''log.csv'') = js ''row1row1row2''
   \<and> files (run emptyWriter
      [Enqueue \<lparr>name = js ''log.csv'', content = js ''row1''\<rparr>, AppendToFile,
       Enqueue \<lparr>name = js ''log.csv'', content = js ''row2''\<rparr>, AppendToFile,
       WriteEnds 0 True, WriteEnds 1 True, WriteEnds 0 False]) (js ''log.csv'') = js ''row1row1''
   \<and> pending (run emptyWriter
      [Enqueue \<lparr>name = js ''log.csv'', content = js ''row1''\<rparr>, AppendToFile,
       Enqueue \<lparr>name = js ''log.csv'', content = js ''row2''\<rparr>, AppendToFile,
       WriteEnds 0 True, WriteEnds 1 True, WriteEnds 0 False]) = []
   \<and> inFlight (run emptyWriter
      [Enqueue \<lparr>name = js ''log.csv'', content = js ''row1''\<rparr>, AppendToFile,
       Enqueue \<lparr>name = js ''log.csv'', content = js ''row2''\<rparr>, AppendToFile,
       WriteEnds 0 True, WriteEnds 1 True, WriteEnds 0 False]) = []"
  by (simp add: run_def emptyWriter_def startWrite_def writeEnds_def Let_def js_def)

text \<open>
  With one call of \<open>appendToFile\<close> at a time the queue does what C7 says: after \<open>n\<close>
  writes that succeeded, the first \<open>n\<close> tasks have left the queue, each file holds the
  contents of its tasks among them in the order of the queue, and the write in flight
  is that of the head; a write that fails changes nothing.
\<close>

lemma idle_ignores_ends:
  "inFlight w = [] \<Longrightarrow> foldl step w (map (WriteEnds k) outcomes) = w"
  by (induction outcomes) (simp_all add: writeEnds_def Let_def)

lemma single_call:
  assumes "pending w = t # ts" and "inFlight w = [t]"
  shows "pending (foldl step w (map (WriteEnds 0) outcomes))
           = drop (length (filter id outcomes)) (pending w)
       \<and> files (foldl step w (map (WriteEnds 0) outcomes)) f
           = files w f @ concat (map content (filter (\<lambda>t. name t = f)
                                   (take (length (filter id outcomes)) (pending w))))
       \<and> inFlight (foldl step w (map (WriteEnds 0) outcomes))
           = take 1 (drop (length (filter id outcomes)) (pending w))"
  using assms
proof (induction outcomes arbitrary: w t ts)
  case Nil
  then show ?case by simp
next
  case (Cons ok outcomes)
  show ?case
  proof (cases ok)
    case False
    with Cons.prems have "step w (WriteEnds 0 ok) = w"
      by (simp add: writeEnds_def Let_def)
    with Cons.IH[OF Cons.prems] False show ?thesis by simp
  next
    case True
    let ?w1 = "step w (WriteEnds 0 ok)"
    from True Cons.prems have p1: "pending ?w1 = ts"
      and f1: "files ?w1 f = (if f = name t then files w f @ content t else files w f)"
      and i1: "inFlight ?w1 = take 1 ts"
      by (auto simp: writeEnds_def Let_def split: list.splits)
    show ?thesis
    proof (cases ts)
      case Nil
      with i1 have idle: "inFlight ?w1 = []" by simp
      from idle_ignores_ends[OF idle, of 0 outcomes] idle p1 f1 Nil True Cons.prems
      show ?thesis by simp
    next
      case (Cons t' ts')
      with p1 i1 have "pending ?w1 = t' # ts'" "inFlight ?w1 = [t']" by simp_all
      from Cons.IH[OF this] p1 f1 True Cons.prems(1)
      show ?thesis by simp
    qed
  qed
qed


lemma drain_in_order:
  assumes "inFlight w = []"
  shows "pending (drain outcomes w) = drop (length (filter id outcomes)) (pending w)
       \<and> files (drain outcomes w) f
           = files w f @ concat (map content (filter (\<lambda>t. name t = f)
                                   (take (length (filter id outcomes)) (pending w))))
       \<and> inFlight (drain outcomes w)
           = take 1 (drop (length (filter id outcomes)) (pending w))"
proof (cases "pending w")
  case Nil
  with assms have "startWrite w = w" by (simp add: startWrite_def)
  with idle_ignores_ends[OF assms, of 0 outcomes] assms Nil show ?thesis
    by (simp add: drain_def run_def)
next
  case (Cons t ts)
  with assms have "pending (startWrite w) = t # ts" "inFlight (startWrite w) = [t]"
    and "files (startWrite w) = files w"
    by (simp_all add: startWrite_def)
  from single_call[OF this(1,2), of outcomes f] this assms Cons show ?thesis
    by (simp add: drain_def run_def)
qed

end
